theory Spec2Isabelle
  imports Complex_Main "HOL-Library.Log_Nat"
begin

section \<open>Data model (types.ts)\<close>

datatype Difficulty = Beginner | Intermediate | Advanced | Mixed

datatype ExamType = Mixed_Exam | MCQ_Only | CODE_Only

datatype QuestionType = MCQ | CODE

datatype CodeLanguage = PYTHON | SQL

datatype AppState = SETUP | LOADING | EXAM | RESULTS | PROGRESS

text \<open>
  Interfaces are records. An optional property (\<open>options?: ...\<close>) is an \<open>option\<close>:
  \<open>None\<close> is JavaScript's \<open>undefined\<close>. Field names that several interfaces share, or
  that clash with a constant of HOL, carry a prefix.
\<close>

record MCQOption =
  opt_id :: string
  opt_text :: string

record Question =
  q_id :: string
  q_type :: QuestionType
  title :: string
  description :: string
  q_difficulty :: Difficulty
  options :: "MCQOption list option"
  correctOptionId :: "string option"
  language :: "CodeLanguage option"
  startingCode :: "string option"
  referenceCode :: "string option"
  testCases :: "string list option"
  hints :: "string list option"

record ExamConfig =
  topic :: string
  difficulty :: Difficulty
  questionCount :: nat
  examType :: ExamType
  timeLimit :: nat

record UserAnswer =
  questionId :: string
  selectedOptionId :: "string option"
  code :: "string option"
  isCorrect :: "bool option"
  feedback :: "string option"
  a_output :: "string option"
  testInput :: "string option"

record GradingResult =
  passed :: bool
  gr_score :: nat
  gr_feedback :: string
  gr_output :: string

text \<open>
  A JavaScript number is an IEEE double: not a number, an infinity, or a finite value,
  which is a rational of the form \<open>m * 2^e\<close> with \<open>\<bar>m\<bar> < 2^53\<close> and
  \<open>- 1074 \<le> e \<le> 971\<close>. (The sign of zero is not kept.)
\<close>

datatype number = NaN | Infinity | MinusInfinity | Num rat

record HistoryItem =
  h_id :: string
  h_date :: string
  h_topic :: string
  h_difficulty :: Difficulty
  h_score :: nat
  totalQuestions :: nat
  h_percentage :: number
  h_timeSpent :: nat

text \<open>A thrown exception is a value of this type.\<close>

datatype error =
    API_KEY_missing      \<comment> \<open>\<open>getAiClient\<close>: the environment has no key\<close>
  | AI_call_failed       \<comment> \<open>\<open>generateContent\<close> rejected\<close>
  | No_response          \<comment> \<open>\<open>response.text\<close> was empty\<close>
  | SyntaxError          \<comment> \<open>\<open>JSON.parse\<close> rejected the text\<close>
  | TypeError            \<comment> \<open>a property of \<open>undefined\<close> was read\<close>
  | Not_rendered         \<comment> \<open>the control behind an event is not on the screen\<close>

section \<open>The answer ledger: a JavaScript Map\<close>

text \<open>
  A \<open>Map\<close> keeps its entries in insertion order; \<open>set\<close> replaces the value of a key
  that is present, in place, and appends a new key at the end.
\<close>

type_synonym ledger = "(string \<times> UserAnswer) list"

fun Map_get :: "('k \<times> 'v) list \<Rightarrow> 'k \<Rightarrow> 'v option" where
  "Map_get [] k = None"
| "Map_get ((k', v) # m) k = (if k' = k then Some v else Map_get m k)"

fun Map_set :: "'k \<Rightarrow> 'v \<Rightarrow> ('k \<times> 'v) list \<Rightarrow> ('k \<times> 'v) list" where
  "Map_set k v [] = [(k, v)]"
| "Map_set k v ((k', v') # m) = (if k' = k then (k, v) # m else (k', v') # Map_set k v m)"

definition Map_values :: "('k \<times> 'v) list \<Rightarrow> 'v list" where
  "Map_values m = map snd m"

definition Map_keys :: "('k \<times> 'v) list \<Rightarrow> 'k list" where
  "Map_keys m = map fst m"

text \<open>\<open>new Map(entries)\<close> inserts the entries from left to right.\<close>

definition Map_new :: "('k \<times> 'v) list \<Rightarrow> ('k \<times> 'v) list" where
  "Map_new entries = foldl (\<lambda>m (k, v). Map_set k v m) [] entries"

section \<open>The external AI service (services/geminiService.ts)\<close>

text \<open>
  What awaiting \<open>ai.models.generateContent\<close> and parsing its text comes to: the call
  rejects, the response has no text, \<open>JSON.parse\<close> rejects the text, or the text parses
  to a value.
\<close>

datatype 'a generateContent = Rejects | NoText | BadJSON | Json 'a

definition getAiClient :: "string option \<Rightarrow> error + string" where
  "getAiClient apiKey =
     (case apiKey of
        None \<Rightarrow> Inl API_KEY_missing
      | Some k \<Rightarrow> if k = [] then Inl API_KEY_missing else Inr k)"

definition generateExamQuestions ::
  "string option \<Rightarrow> Question list generateContent \<Rightarrow> error + Question list" where
  "generateExamQuestions apiKey reply =
     (case getAiClient apiKey of
        Inl e \<Rightarrow> Inl e
      | Inr ai \<Rightarrow>
          (case reply of
             Rejects \<Rightarrow> Inl AI_call_failed
           | NoText \<Rightarrow> Inl No_response
           | BadJSON \<Rightarrow> Inl SyntaxError
           | Json qs \<Rightarrow> Inr qs))"

definition grading_fallback :: GradingResult where
  "grading_fallback =
     \<lparr>passed = False, gr_score = 0,
      gr_feedback = ''System error during grading.'',
      gr_output = ''Error connecting to Judge AI.''\<rparr>"

text \<open>
  \<open>gradeCodeSubmission\<close>: the client is made before the \<open>try\<close> block, so a missing key
  is thrown to the caller; everything thrown inside the block is caught and replaced by
  the fixed result.
\<close>

definition gradeCodeSubmission ::
  "string option \<Rightarrow> GradingResult generateContent \<Rightarrow> error + GradingResult" where
  "gradeCodeSubmission apiKey reply =
     (case getAiClient apiKey of
        Inl e \<Rightarrow> Inl e
      | Inr ai \<Rightarrow>
          (case reply of
             Json r \<Rightarrow> Inr r
           | _ \<Rightarrow> Inr grading_fallback))"

definition generateTestCases ::
  "string option \<Rightarrow> string list option generateContent \<Rightarrow> error + string list" where
  "generateTestCases apiKey reply =
     (case getAiClient apiKey of
        Inl e \<Rightarrow> Inl e
      | Inr ai \<Rightarrow>
          (case reply of
             Rejects \<Rightarrow> Inr [''Error generating test cases. Please try again.'']
           | NoText \<Rightarrow> Inr [''Could not generate test cases.'']
           | BadJSON \<Rightarrow> Inr [''Error generating test cases. Please try again.'']
           | Json None \<Rightarrow> Inr [''No test cases returned.'']
           | Json (Some cs) \<Rightarrow> Inr cs))"

section \<open>The exam screen (ExamInterface)\<close>

text \<open>
  The state of the mounted component. \<open>pendingRun\<close> and \<open>pendingTests\<close> hold the
  closure of an asynchronous handler that is waiting for the AI service: the handler
  continues with the ledger and the question of the render in which it was called.
  (The Run buttons are disabled while \<open>isGrading\<close>, and \<open>handleGenerateTestCases\<close>
  returns at once while \<open>isGeneratingTests\<close>, so one closure of each kind is enough.)
  \<open>pendingTimeouts\<close> counts the zero-delay callbacks that the auto-submit effect has
  scheduled and that have not run yet.
\<close>

record run_closure =
  rc_answers :: ledger
  rc_question :: Question
  rc_userCode :: string

record tests_closure =
  tc_answers :: ledger
  tc_question :: Question
  tc_existing :: UserAnswer

record ExamInterface =
  currentIdx :: nat
  answers :: ledger
  elapsed :: nat
  isGrading :: bool
  isGeneratingTests :: bool
  pendingRun :: "run_closure option"
  pendingTests :: "tests_closure option"
  pendingTimeouts :: nat

text \<open>\<open>questions[currentIdx]\<close>; out of range it is \<open>undefined\<close>.\<close>

definition currentQuestion :: "Question list \<Rightarrow> nat \<Rightarrow> Question option" where
  "currentQuestion qs i = (if i < length qs then Some (qs ! i) else None)"

text \<open>The object literal \<open>{ questionId: id }\<close>.\<close>

definition newAnswer :: "string \<Rightarrow> UserAnswer" where
  "newAnswer qid =
     \<lparr>questionId = qid, selectedOptionId = None, code = None, isCorrect = None,
      feedback = None, a_output = None, testInput = None\<rparr>"

text \<open>\<open>answers.get(currentQuestion.id) || { questionId: currentQuestion.id }\<close>\<close>

definition existing :: "Question \<Rightarrow> ledger \<Rightarrow> UserAnswer" where
  "existing cq m = (case Map_get m (q_id cq) of Some a \<Rightarrow> a | None \<Rightarrow> newAnswer (q_id cq))"

subsection \<open>The timer and the auto-submit effect\<close>

text \<open>The updater passed to \<open>setElapsed\<close> every second.\<close>

definition tickElapsed :: "nat \<Rightarrow> nat \<Rightarrow> nat" where
  "tickElapsed limit prev = (if limit > 0 \<and> prev \<ge> limit * 60 then prev else prev + 1)"

text \<open>The condition under which the effect on \<open>[elapsed, timeLimit]\<close> schedules
  \<open>handleSubmitAll\<close>.\<close>

definition autoSubmitDue :: "nat \<Rightarrow> nat \<Rightarrow> bool" where
  "autoSubmitDue limit e \<longleftrightarrow> limit > 0 \<and> e \<ge> limit * 60"

text \<open>
  One timer tick. The effect runs again only after a render in which \<open>elapsed\<close> differs
  from the previous render (\<open>timeLimit\<close> is a prop that does not change while the
  component is mounted); an updater that returns the old value causes no such render.
\<close>

definition tick :: "nat \<Rightarrow> ExamInterface \<Rightarrow> ExamInterface" where
  "tick limit e =
     (let e' = tickElapsed limit (elapsed e) in
      if e' = elapsed e then e
      else e\<lparr>elapsed := e',
              pendingTimeouts := pendingTimeouts e + (if autoSubmitDue limit e' then 1 else 0)\<rparr>)"

text \<open>
  Mounting: the \<open>useState\<close> initialisers, then the first render, which reads
  \<open>currentQuestion.id\<close>, then the effects of the first render.
\<close>

definition mount ::
  "Question list \<Rightarrow> nat \<Rightarrow> UserAnswer list \<Rightarrow> nat \<Rightarrow> nat \<Rightarrow> error + ExamInterface" where
  "mount qs limit initAnswers initTimeSpent initCurrentIdx =
     (case currentQuestion qs initCurrentIdx of
        None \<Rightarrow> Inl TypeError
      | Some cq \<Rightarrow>
          Inr \<lparr>currentIdx = initCurrentIdx,
               answers = Map_new (map (\<lambda>a. (questionId a, a)) initAnswers),
               elapsed = initTimeSpent,
               isGrading = False, isGeneratingTests = False,
               pendingRun = None, pendingTests = None,
               pendingTimeouts = (if autoSubmitDue limit initTimeSpent then 1 else 0)\<rparr>)"

subsection \<open>Handlers on the ledger\<close>

definition handleOptionSelect :: "Question \<Rightarrow> string \<Rightarrow> ledger \<Rightarrow> ledger" where
  "handleOptionSelect cq optId m =
     Map_set (q_id cq) ((newAnswer (q_id cq))\<lparr>selectedOptionId := Some optId\<rparr>) m"

definition handleCodeChange :: "Question \<Rightarrow> string \<Rightarrow> ledger \<Rightarrow> ledger" where
  "handleCodeChange cq c m = Map_set (q_id cq) ((existing cq m)\<lparr>code := Some c\<rparr>) m"

text \<open>The text an untouched editor shows, and the text a reset stores:
  \<open>startingCode || (language === 'sql' ? '-- Start ...' : '# Start ...')\<close>.\<close>

definition placeholder :: "Question \<Rightarrow> string" where
  "placeholder cq =
     (if language cq = Some SQL then ''-- Start your code here'' else ''# Start your code here'')"

definition initialCode :: "Question \<Rightarrow> string" where
  "initialCode cq =
     (case startingCode cq of
        None \<Rightarrow> placeholder cq
      | Some s \<Rightarrow> if s = [] then placeholder cq else s)"

definition handleResetCode :: "bool \<Rightarrow> Question \<Rightarrow> ledger \<Rightarrow> ledger" where
  "handleResetCode confirmed cq m =
     (if confirmed then Map_set (q_id cq) ((existing cq m)\<lparr>code := Some (initialCode cq)\<rparr>) m
      else m)"

definition getEditorValue :: "Question \<Rightarrow> ledger \<Rightarrow> string" where
  "getEditorValue cq m =
     (case Map_get m (q_id cq) of
        None \<Rightarrow> initialCode cq
      | Some a \<Rightarrow> (case code a of Some c \<Rightarrow> c | None \<Rightarrow> initialCode cq))"

definition isAnswered :: "ledger \<Rightarrow> string \<Rightarrow> bool" where
  "isAnswered m qId =
     (case Map_get m qId of
        None \<Rightarrow> False
      | Some a \<Rightarrow>
          selectedOptionId a \<noteq> None \<or>
          (case code a of None \<Rightarrow> False | Some c \<Rightarrow> length c > 5))"

subsection \<open>Running code against the judge\<close>

text \<open>
  The white space and line terminators that \<open>String.prototype.trim\<close> removes. A
  character here is a code unit below 256; among these they are the tab, the line
  feed, the vertical tab, the form feed, the carriage return, the space and the
  no-break space.
\<close>

definition isWhiteSpace :: "char \<Rightarrow> bool" where
  "isWhiteSpace c \<longleftrightarrow>
     c \<in> set [CHR 0x09, CHR 0x0A, CHR 0x0B, CHR 0x0C, CHR 0x0D, CHR 0x20, CHR 0xA0]"

definition trim :: "string \<Rightarrow> string" where
  "trim s = rev (dropWhile isWhiteSpace (rev (dropWhile isWhiteSpace s)))"

text \<open>
  \<open>handleRunCode\<close> up to its \<open>await\<close> of the judge: the submitted text is the editor's
  (after formatting) when an editor is mounted, else the stored code or the empty
  string; nothing happens when it is blank.
\<close>

definition handleRunCode_call :: "Question \<Rightarrow> string option \<Rightarrow> ledger \<Rightarrow> run_closure option" where
  "handleRunCode_call cq editor m =
     (let userCode =
            (case editor of
               Some v \<Rightarrow> v
             | None \<Rightarrow>
                 (case Map_get m (q_id cq) of
                    None \<Rightarrow> []
                  | Some a \<Rightarrow> (case code a of None \<Rightarrow> [] | Some c \<Rightarrow> c)))
      in if trim userCode = [] then None
         else Some \<lparr>rc_answers = m, rc_question = cq, rc_userCode = userCode\<rparr>)"

text \<open>\<open>handleRunCode\<close> after the judge has answered: the new ledger given to
  \<open>setAnswers\<close>, built on the ledger the handler was called with.\<close>

definition handleRunCode_resume :: "run_closure \<Rightarrow> GradingResult \<Rightarrow> ledger" where
  "handleRunCode_resume cl r =
     Map_set (q_id (rc_question cl))
       ((existing (rc_question cl) (rc_answers cl))
          \<lparr>code := Some (rc_userCode cl),
           isCorrect := Some (passed r),
           feedback := Some (gr_feedback r),
           a_output := Some (gr_output r)\<rparr>)
       (rc_answers cl)"

subsection \<open>Generating test cases\<close>

fun digits :: "nat \<Rightarrow> string" where
  "digits n =
     (if n < 10 then [char_of (48 + n)] else digits (n div 10) @ [char_of (48 + n mod 10)])"

text \<open>\<open>xs.join(sep)\<close>\<close>

fun join :: "string \<Rightarrow> string list \<Rightarrow> string" where
  "join sep [] = []"
| "join sep [x] = x"
| "join sep (x # y # ys) = x @ sep @ join sep (y # ys)"

text \<open>\<open>cases.map((c, i) => `Case ${i+1}:\n${c}`).join('\n\n')\<close>\<close>

definition formattedInput :: "string list \<Rightarrow> string" where
  "formattedInput cases =
     join [CHR 0x0A, CHR 0x0A]
       (map (\<lambda>(i, c). ''Case '' @ digits (i + 1) @ '':'' @ [CHR 0x0A] @ c)
            (zip [0 ..< length cases] cases))"

definition handleGenerateTestCases_call :: "Question \<Rightarrow> ledger \<Rightarrow> tests_closure" where
  "handleGenerateTestCases_call cq m =
     \<lparr>tc_answers = m, tc_question = cq, tc_existing = existing cq m\<rparr>"

definition handleGenerateTestCases_resume :: "tests_closure \<Rightarrow> string list \<Rightarrow> ledger" where
  "handleGenerateTestCases_resume cl cases =
     Map_set (q_id (tc_question cl))
       ((tc_existing cl)\<lparr>testInput := Some (formattedInput cases)\<rparr>)
       (tc_answers cl)"

section \<open>The scorer (ResultsView)\<close>

definition computedCorrect :: "Question \<Rightarrow> UserAnswer \<Rightarrow> bool" where
  "computedCorrect q ans =
     (if q_type q = MCQ then selectedOptionId ans = correctOptionId q
      else isCorrect ans = Some True)"

text \<open>
  One call of the callback given to \<open>answers.map\<close>: the pair is the list of graded
  answers built so far and the running \<open>score\<close>.
\<close>

definition gradeAnswer ::
  "Question list \<Rightarrow> UserAnswer list \<times> nat \<Rightarrow> UserAnswer \<Rightarrow> UserAnswer list \<times> nat" where
  "gradeAnswer qs acc ans =
     (case find (\<lambda>q. q_id q = questionId ans) qs of
        None \<Rightarrow> (fst acc @ [ans], snd acc)
      | Some q \<Rightarrow>
          (fst acc @ [ans\<lparr>isCorrect := Some (computedCorrect q ans)\<rparr>],
           if computedCorrect q ans then snd acc + 1 else snd acc))"


definition score :: "Question list \<Rightarrow> UserAnswer list \<Rightarrow> nat" where
  "score qs as = snd (foldl (gradeAnswer qs) ([], 0) as)"

subsection \<open>Arithmetic in doubles\<close>

text \<open>
  Every arithmetic operation gives the double nearest to the exact result, a tie going
  to the even significand. \<open>double\<close> is this rounding of an exact rational:
  \<open>exponent a\<close> is the \<open>e\<close> with \<open>2^52 \<le> a / 2^e < 2^53\<close>, or \<open>- 1074\<close> for the
  subnormal numbers below \<open>2^- 1022\<close>; the significand is \<open>a / 2^e\<close> rounded to an integer;
  a result of \<open>2^1024\<close> or more is an infinity.
\<close>

definition round_half_even :: "rat \<Rightarrow> int" where
  "round_half_even y =
     (if y - of_int \<lfloor>y\<rfloor> < 1 / 2 then \<lfloor>y\<rfloor>
      else if 1 / 2 < y - of_int \<lfloor>y\<rfloor> then \<lfloor>y\<rfloor> + 1
      else if even \<lfloor>y\<rfloor> then \<lfloor>y\<rfloor> else \<lfloor>y\<rfloor> + 1)"

text \<open>For \<open>a \<ge> 1\<close> the integer part of the binary logarithm; for \<open>0 < a < 1\<close> that, or
  one less when \<open>a\<close> is a power of two.\<close>

definition log2_floor :: "rat \<Rightarrow> int" where
  "log2_floor a = (if 1 \<le> a then bitlen \<lfloor>a\<rfloor> - 1 else - bitlen \<lfloor>1 / a\<rfloor>)"

definition exponent :: "rat \<Rightarrow> int" where
  "exponent a =
     max (if 2 ^ 53 \<le> a / power_int 2 (log2_floor a - 52) then log2_floor a - 51
          else log2_floor a - 52)
         (- 1074)"

definition double :: "rat \<Rightarrow> number" where
  "double x =
     (if x = 0 then Num 0
      else if (2 ^ 1024 :: rat) \<le> of_int (round_half_even (\<bar>x\<bar> / power_int 2 (exponent \<bar>x\<bar>)))
                         * power_int 2 (exponent \<bar>x\<bar>)
      then (if 0 < x then Infinity else MinusInfinity)
      else Num (sgn x * of_int (round_half_even (\<bar>x\<bar> / power_int 2 (exponent \<bar>x\<bar>)))
                  * power_int 2 (exponent \<bar>x\<bar>)))"

text \<open>\<open>a / b\<close> for two counts, \<open>v * k\<close> for a number and a count, and \<open>Math.round\<close>
  (to the nearest integer, a half upwards; its result is exact). The counts are a
  score, the length of an array and the constant 100, all below \<open>2^53\<close> and so
  doubles themselves.\<close>

definition js_div :: "nat \<Rightarrow> nat \<Rightarrow> number" where
  "js_div a b =
     (if b = 0 then (if a = 0 then NaN else Infinity) else double (of_nat a / of_nat b))"

fun js_times :: "number \<Rightarrow> nat \<Rightarrow> number" where
  "js_times NaN k = NaN"
| "js_times Infinity k = (if k = 0 then NaN else Infinity)"
| "js_times MinusInfinity k = (if k = 0 then NaN else MinusInfinity)"
| "js_times (Num x) k = double (x * of_nat k)"

fun Math_round :: "number \<Rightarrow> number" where
  "Math_round (Num x) = Num (of_int \<lfloor>x + 1 / 2\<rfloor>)"
| "Math_round v = v"

subsection \<open>The percentage and the history record\<close>

definition percentage :: "Question list \<Rightarrow> UserAnswer list \<Rightarrow> number" where
  "percentage qs as = Math_round (js_times (js_div (score qs as) (length qs)) 100)"

text \<open>The record that the effect of \<open>ResultsView\<close> puts in front of the history.\<close>

definition historyItem ::
  "ExamConfig \<Rightarrow> Question list \<Rightarrow> UserAnswer list \<Rightarrow> nat \<Rightarrow> string \<Rightarrow> string \<Rightarrow> HistoryItem" where
  "historyItem c qs as spent uuid now =
     \<lparr>h_id = uuid, h_date = now, h_topic = topic c, h_difficulty = difficulty c,
      h_score = score qs as, totalQuestions = length qs,
      h_percentage = percentage qs as, h_timeSpent = spent\<rparr>"

section \<open>The session controller (App)\<close>

record savedState =
  sv_config :: ExamConfig
  sv_questions :: "Question list"
  sv_answers :: "UserAnswer list"
  sv_timeSpent :: nat
  sv_currentIdx :: nat
  savedAt :: string

text \<open>
  The text under the key \<open>codequest_saved_exam\<close>: what \<open>JSON.stringify\<close> made of a saved
  state, which \<open>JSON.parse\<close> gives back as it was (absent properties stay absent), or
  a text that \<open>JSON.parse\<close> rejects.
\<close>

datatype stored = Corrupt | Saved savedState

datatype alert = Generation_failed error | Resume_failed

text \<open>
  Everything the application holds: the environment's key, the state of \<open>App\<close>, the
  mounted \<open>ExamInterface\<close> if there is one, the two items of local storage and the
  alerts shown so far.
\<close>

record world =
  VITE_API_KEY :: "string option"
  appState :: AppState
  questions :: "Question list"
  config :: "ExamConfig option"
  userAnswers :: "UserAnswer list"
  timeSpent :: nat
  initialAnswers :: "UserAnswer list"
  initialTimeSpent :: nat
  initialIdx :: nat
  exam :: "ExamInterface option"
  codequest_saved_exam :: "stored option"
  codequest_history :: "HistoryItem list"
  alerts :: "alert list"

definition initial :: "string option \<Rightarrow> world" where
  "initial key =
     \<lparr>VITE_API_KEY = key, appState = SETUP, questions = [], config = None,
      userAnswers = [], timeSpent = 0, initialAnswers = [], initialTimeSpent = 0,
      initialIdx = 0, exam = None, codequest_saved_exam = None, codequest_history = [],
      alerts = []\<rparr>"

text \<open>\<open>handleStartExam\<close> up to its \<open>await\<close>, and after it.\<close>

definition handleStartExam_call :: "ExamConfig \<Rightarrow> world \<Rightarrow> world" where
  "handleStartExam_call examConfig w =
     w\<lparr>config := Some examConfig, appState := LOADING,
       initialAnswers := [], initialTimeSpent := 0, initialIdx := 0\<rparr>"

definition handleStartExam_resume :: "error + Question list \<Rightarrow> world \<Rightarrow> world" where
  "handleStartExam_resume r w =
     (case r of
        Inr generatedQuestions \<Rightarrow> w\<lparr>questions := generatedQuestions, appState := EXAM\<rparr>
      | Inl e \<Rightarrow> w\<lparr>alerts := alerts w @ [Generation_failed e], appState := SETUP\<rparr>)"

definition handleExamComplete :: "UserAnswer list \<Rightarrow> nat \<Rightarrow> world \<Rightarrow> world" where
  "handleExamComplete as duration w =
     w\<lparr>userAnswers := as, timeSpent := duration, appState := RESULTS,
       codequest_saved_exam := None\<rparr>"

definition handleSaveExam :: "UserAnswer list \<Rightarrow> nat \<Rightarrow> nat \<Rightarrow> string \<Rightarrow> world \<Rightarrow> world" where
  "handleSaveExam as spent idx now w =
     (case config w of
        None \<Rightarrow> w
      | Some c \<Rightarrow>
          w\<lparr>codequest_saved_exam :=
               Some (Saved \<lparr>sv_config = c, sv_questions = questions w, sv_answers = as,
                            sv_timeSpent = spent, sv_currentIdx = idx, savedAt = now\<rparr>),
            appState := SETUP, config := None, questions := [], userAnswers := []\<rparr>)"

definition handleResumeExam :: "world \<Rightarrow> world" where
  "handleResumeExam w =
     (case codequest_saved_exam w of
        None \<Rightarrow> w
      | Some Corrupt \<Rightarrow> w\<lparr>alerts := alerts w @ [Resume_failed]\<rparr>
      | Some (Saved parsed) \<Rightarrow>
          w\<lparr>config := Some (sv_config parsed), questions := sv_questions parsed,
            initialAnswers := sv_answers parsed, initialTimeSpent := sv_timeSpent parsed,
            initialIdx := sv_currentIdx parsed, appState := EXAM\<rparr>)"

definition handleRestart :: "world \<Rightarrow> world" where
  "handleRestart w =
     w\<lparr>appState := SETUP, questions := [], userAnswers := [], config := None,
       timeSpent := 0, initialAnswers := [], initialTimeSpent := 0, initialIdx := 0\<rparr>"

text \<open>The effect of \<open>ResultsView\<close>, which runs once when the results are shown.\<close>

definition ResultsView_effect :: "string \<Rightarrow> string \<Rightarrow> world \<Rightarrow> world" where
  "ResultsView_effect uuid now w =
     (case config w of
        None \<Rightarrow> w
      | Some c \<Rightarrow>
          w\<lparr>codequest_history :=
               historyItem c (questions w) (userAnswers w) (timeSpent w) uuid now
                 # codequest_history w\<rparr>)"

section \<open>The application as a state machine\<close>

text \<open>
  One event is one thing that happens to the application: a click on a control that
  the current screen shows, a timer tick, a callback, the settling of an awaited call to
  the AI service, or a reload of the page.
\<close>

datatype event =
    Start ExamConfig                                   \<comment> \<open>the setup form is submitted\<close>
  | GenerationSettles "Question list generateContent"   \<comment> \<open>the awaited generation settles\<close>
  | Resume
  | ViewProgress
  | Back
  | Restart
  | Reload                                              \<comment> \<open>the page is loaded again\<close>
  | SelectOption string
  | ChangeCode string
  | ResetCode bool                                      \<comment> \<open>with the answer to \<open>window.confirm\<close>\<close>
  | RunCode "string option"                             \<comment> \<open>with the editor's text, if mounted\<close>
  | JudgeSettles "GradingResult generateContent"
  | GenerateTests
  | TestsSettle "string list option generateContent"
  | Goto nat
  | Previous
  | Next
  | Tick
  | TimeoutFires string string                          \<comment> \<open>the scheduled auto-submit runs\<close>
  | SubmitAll string string                             \<comment> \<open>with the id and date of the history record\<close>
  | Save string                                         \<comment> \<open>with the date of the snapshot\<close>

definition optionIds :: "Question \<Rightarrow> string list" where
  "optionIds q = (case options q of None \<Rightarrow> [] | Some os \<Rightarrow> map opt_id os)"

text \<open>
  The events that stay on the exam screen. The option buttons exist for a choice
  question, the editor and its buttons for a code question. (The bound of \<open>Next\<close> is
  \<open>questions.length - 1\<close>, which is not negative on a mounted screen.)
\<close>

definition examEvent ::
  "Question list \<Rightarrow> nat \<Rightarrow> string option \<Rightarrow> event \<Rightarrow> ExamInterface \<Rightarrow> error + ExamInterface" where
  "examEvent qs limit apiKey ev e =
     (case currentQuestion qs (currentIdx e) of
        None \<Rightarrow> Inl TypeError
      | Some cq \<Rightarrow>
          (case ev of
             SelectOption optId \<Rightarrow>
               if q_type cq = MCQ \<and> optId \<in> set (optionIds cq)
               then Inr (e\<lparr>answers := handleOptionSelect cq optId (answers e)\<rparr>)
               else Inl Not_rendered
           | ChangeCode c \<Rightarrow>
               if q_type cq = CODE
               then Inr (e\<lparr>answers := handleCodeChange cq c (answers e)\<rparr>)
               else Inl Not_rendered
           | ResetCode confirmed \<Rightarrow>
               if q_type cq = CODE
               then Inr (e\<lparr>answers := handleResetCode confirmed cq (answers e)\<rparr>)
               else Inl Not_rendered
           | RunCode editor \<Rightarrow>
               if q_type cq = CODE \<and> \<not> isGrading e
               then (case handleRunCode_call cq editor (answers e) of
                       None \<Rightarrow> Inr e
                     | Some cl \<Rightarrow> Inr (e\<lparr>isGrading := True, pendingRun := Some cl\<rparr>))
               else Inl Not_rendered
           | JudgeSettles reply \<Rightarrow>
               (case pendingRun e of
                  None \<Rightarrow> Inl Not_rendered
                | Some cl \<Rightarrow>
                    (case gradeCodeSubmission apiKey reply of
                       Inl err \<Rightarrow> Inr (e\<lparr>pendingRun := None\<rparr>)
                     | Inr r \<Rightarrow>
                         Inr (e\<lparr>answers := handleRunCode_resume cl r,
                                isGrading := False, pendingRun := None\<rparr>)))
           | GenerateTests \<Rightarrow>
               if q_type cq = CODE
               then (if isGeneratingTests e then Inr e
                     else Inr (e\<lparr>isGeneratingTests := True,
                                 pendingTests :=
                                   Some (handleGenerateTestCases_call cq (answers e))\<rparr>))
               else Inl Not_rendered
           | TestsSettle reply \<Rightarrow>
               (case pendingTests e of
                  None \<Rightarrow> Inl Not_rendered
                | Some cl \<Rightarrow>
                    (case generateTestCases apiKey reply of
                       Inl err \<Rightarrow> Inr (e\<lparr>isGeneratingTests := False, pendingTests := None\<rparr>)
                     | Inr cases \<Rightarrow>
                         Inr (e\<lparr>answers := handleGenerateTestCases_resume cl cases,
                                isGeneratingTests := False, pendingTests := None\<rparr>)))
           | Goto idx \<Rightarrow>
               if idx < length qs then Inr (e\<lparr>currentIdx := idx\<rparr>) else Inl Not_rendered
           | Previous \<Rightarrow> Inr (e\<lparr>currentIdx := currentIdx e - 1\<rparr>)
           | Next \<Rightarrow> Inr (e\<lparr>currentIdx := min (length qs - 1) (currentIdx e + 1)\<rparr>)
           | Tick \<Rightarrow> Inr (tick limit e)
           | _ \<Rightarrow> Inl Not_rendered))"

text \<open>
  What \<open>App\<close> renders after a handler has run outside the exam screen: the exam
  screen is mounted when the state is \<open>EXAM\<close> and a configuration is present.
\<close>

definition render :: "world \<Rightarrow> error + world" where
  "render w =
     (if appState w = EXAM then
        (case config w of
           None \<Rightarrow> Inr (w\<lparr>exam := None\<rparr>)
         | Some c \<Rightarrow>
             (case mount (questions w) (timeLimit c) (initialAnswers w)
                     (initialTimeSpent w) (initialIdx w) of
                Inl err \<Rightarrow> Inl err
              | Inr e \<Rightarrow> Inr (w\<lparr>exam := Some e\<rparr>)))
      else Inr (w\<lparr>exam := None\<rparr>))"

text \<open>\<open>handleSubmitAll\<close>, then the results screen with its effect.\<close>

definition handleSubmitAll :: "string \<Rightarrow> string \<Rightarrow> ExamInterface \<Rightarrow> world \<Rightarrow> world" where
  "handleSubmitAll uuid now e w =
     ResultsView_effect uuid now
       ((handleExamComplete (Map_values (answers e)) (elapsed e) w)\<lparr>exam := None\<rparr>)"

definition handleSave :: "string \<Rightarrow> ExamInterface \<Rightarrow> world \<Rightarrow> world" where
  "handleSave now e w =
     (handleSaveExam (Map_values (answers e)) (elapsed e) (currentIdx e) now w)\<lparr>exam := None\<rparr>"

text \<open>A reload starts \<open>App\<close> afresh; local storage and the environment stay.\<close>

definition reload :: "world \<Rightarrow> world" where
  "reload w =
     (initial (VITE_API_KEY w))
       \<lparr>codequest_saved_exam := codequest_saved_exam w,
        codequest_history := codequest_history w,
        alerts := alerts w\<rparr>"

text \<open>
  One step. An event that the current screen does not offer is \<open>Inl Not_rendered\<close>.
  \<open>TimeoutFires\<close> is the run of a callback that the auto-submit effect of the
  mounted exam screen has scheduled; a callback that is still scheduled when its
  screen is unmounted is not followed further.
\<close>

definition step :: "world \<Rightarrow> event \<Rightarrow> error + world" where
  "step w ev =
     (if ev = Reload then Inr (reload w)
      else
        (case appState w of
           SETUP \<Rightarrow>
             (case ev of
                Start examConfig \<Rightarrow> Inr (handleStartExam_call examConfig w)
              | Resume \<Rightarrow> render (handleResumeExam w)
              | ViewProgress \<Rightarrow> Inr (w\<lparr>appState := PROGRESS\<rparr>)
              | _ \<Rightarrow> Inl Not_rendered)
         | LOADING \<Rightarrow>
             (case ev of
                GenerationSettles reply \<Rightarrow>
                  render (handleStartExam_resume (generateExamQuestions (VITE_API_KEY w) reply) w)
              | _ \<Rightarrow> Inl Not_rendered)
         | EXAM \<Rightarrow>
             (case (exam w, config w) of
                (Some e, Some c) \<Rightarrow>
                  (case ev of
                     TimeoutFires uuid now \<Rightarrow>
                       if pendingTimeouts e > 0 then Inr (handleSubmitAll uuid now e w)
                       else Inl Not_rendered
                   | SubmitAll uuid now \<Rightarrow> Inr (handleSubmitAll uuid now e w)
                   | Save now \<Rightarrow> Inr (handleSave now e w)
                   | _ \<Rightarrow>
                       (case examEvent (questions w) (timeLimit c) (VITE_API_KEY w) ev e of
                          Inl err \<Rightarrow> Inl err
                        | Inr e' \<Rightarrow> Inr (w\<lparr>exam := Some e'\<rparr>)))
              | _ \<Rightarrow> Inl Not_rendered)
         | RESULTS \<Rightarrow>
             (case (ev, config w) of
                (Restart, Some c) \<Rightarrow> Inr (handleRestart w)
              | _ \<Rightarrow> Inl Not_rendered)
         | PROGRESS \<Rightarrow>
             (case ev of
                Back \<Rightarrow> Inr (w\<lparr>appState := SETUP\<rparr>)
              | _ \<Rightarrow> Inl Not_rendered)))"

fun run :: "world \<Rightarrow> event list \<Rightarrow> error + world" where
  "run w [] = Inr w"
| "run w (ev # evs) = (case step w ev of Inl err \<Rightarrow> Inl err | Inr w' \<Rightarrow> run w' evs)"

text \<open>Ticks alone, on a screen that stays mounted.\<close>

fun ticks :: "nat \<Rightarrow> nat \<Rightarrow> ExamInterface \<Rightarrow> ExamInterface" where
  "ticks limit 0 e = e"
| "ticks limit (Suc n) e = ticks limit n (tick limit e)"

section \<open>Invariants of the reachable states\<close>

text \<open>
  An answer of a session: it belongs to a question of the session, and a judged
  correctness is only ever stored together with the judged code.
\<close>

definition answer_ok :: "Question list \<Rightarrow> UserAnswer \<Rightarrow> bool" where
  "answer_ok qs a \<longleftrightarrow>
     questionId a \<in> set (map q_id qs) \<and> (isCorrect a \<noteq> None \<longrightarrow> code a \<noteq> None)"

definition ledger_ok :: "Question list \<Rightarrow> ledger \<Rightarrow> bool" where
  "ledger_ok qs m \<longleftrightarrow>
     distinct (Map_keys m) \<and> list_all (\<lambda>(k, a). questionId a = k \<and> answer_ok qs a) m"

definition answers_ok :: "Question list \<Rightarrow> UserAnswer list \<Rightarrow> bool" where
  "answers_ok qs as \<longleftrightarrow> distinct (map questionId as) \<and> list_all (answer_ok qs) as"

definition exam_ok :: "Question list \<Rightarrow> ExamInterface \<Rightarrow> bool" where
  "exam_ok qs e \<longleftrightarrow>
     currentIdx e < length qs \<and> ledger_ok qs (answers e) \<and>
     (case pendingRun e of
        None \<Rightarrow> True
      | Some cl \<Rightarrow> ledger_ok qs (rc_answers cl) \<and> rc_question cl \<in> set qs) \<and>
     (case pendingTests e of
        None \<Rightarrow> True
      | Some cl \<Rightarrow>
          ledger_ok qs (tc_answers cl) \<and> tc_question cl \<in> set qs \<and>
          questionId (tc_existing cl) = q_id (tc_question cl) \<and>
          answer_ok qs (tc_existing cl))"

definition snapshot_ok :: "stored option \<Rightarrow> bool" where
  "snapshot_ok s =
     (case s of
        None \<Rightarrow> True
      | Some Corrupt \<Rightarrow> False
      | Some (Saved p) \<Rightarrow>
          sv_currentIdx p < length (sv_questions p) \<and>
          answers_ok (sv_questions p) (sv_answers p))"

definition screen_ok :: "world \<Rightarrow> bool" where
  "screen_ok w =
     (case appState w of
        EXAM \<Rightarrow>
          (case exam w of
             None \<Rightarrow> False
           | Some e \<Rightarrow> config w \<noteq> None \<and> exam_ok (questions w) e)
      | RESULTS \<Rightarrow>
          exam w = None \<and> questions w \<noteq> [] \<and>
          answers_ok (questions w) (userAnswers w) \<and>
          codequest_saved_exam w = None \<and>
          (case (config w, codequest_history w) of
             (Some c, h # rest) \<Rightarrow>
               h = historyItem c (questions w) (userAnswers w) (timeSpent w) (h_id h) (h_date h)
           | _ \<Rightarrow> False)
      | LOADING \<Rightarrow>
          exam w = None \<and> config w \<noteq> None \<and> questions w = [] \<and> userAnswers w = [] \<and>
          initialAnswers w = [] \<and> initialTimeSpent w = 0 \<and> initialIdx w = 0
      | _ \<Rightarrow> exam w = None \<and> questions w = [] \<and> userAnswers w = [])"

text \<open>Questions and a snapshot only come into being after a generation that succeeded,
  for which the environment must hold a key.\<close>

definition key_ok :: "world \<Rightarrow> bool" where
  "key_ok w \<longleftrightarrow>
     (questions w \<noteq> [] \<or> codequest_saved_exam w \<noteq> None \<longrightarrow>
      getAiClient (VITE_API_KEY w) \<noteq> Inl API_KEY_missing)"

definition world_ok :: "world \<Rightarrow> bool" where
  "world_ok w \<longleftrightarrow> screen_ok w \<and> snapshot_ok (codequest_saved_exam w) \<and> key_ok w"

text \<open>The number of auto-submit callbacks that are scheduled: one once the limit has
  been reached, none before.\<close>

definition timer_ok :: "nat \<Rightarrow> ExamInterface \<Rightarrow> bool" where
  "timer_ok limit e \<longleftrightarrow>
     pendingTimeouts e = (if autoSubmitDue limit (elapsed e) then 1 else 0)"

definition timer_inv :: "world \<Rightarrow> bool" where
  "timer_inv w =
     (case (exam w, config w) of
        (Some e, Some c) \<Rightarrow> timer_ok (timeLimit c) e
      | _ \<Rightarrow> True)"

section \<open>The specification's wording, for comparison\<close>


text \<open>
  ``The user explicitly saved and has not since resumed, completed, or restarted'',
  followed along the events.
\<close>

fun saved_per_spec :: "bool \<Rightarrow> event \<Rightarrow> bool" where
  "saved_per_spec b (Save now) = True"
| "saved_per_spec b Resume = False"
| "saved_per_spec b (SubmitAll uuid now) = False"
| "saved_per_spec b (TimeoutFires uuid now) = False"
| "saved_per_spec b Restart = False"
| "saved_per_spec b ev = b"

text \<open>``The user explicitly saved and has not since completed an exam.''\<close>

fun saved_not_completed :: "bool \<Rightarrow> event \<Rightarrow> bool" where
  "saved_not_completed b (Save now) = True"
| "saved_not_completed b (SubmitAll uuid now) = False"
| "saved_not_completed b (TimeoutFires uuid now) = False"
| "saved_not_completed b ev = b"

section \<open>Checking all small cases\<close>



section \<open>A sample session\<close>

text \<open>
  Two choice questions and a code question, five minutes. The user picks the right
  option twice, types code for the third question and runs it; the judge has not
  answered yet.
\<close>

definition demo_config :: ExamConfig where
  "demo_config =
     \<lparr>topic = ''Python Lists'', difficulty = Beginner, questionCount = 3,
      examType = Mixed_Exam, timeLimit = 5\<rparr>"

definition demo_choice :: "string \<Rightarrow> Question" where
  "demo_choice qid =
     \<lparr>q_id = qid, q_type = MCQ, title = ''Pick one'', description = ''Which one?'',
      q_difficulty = Beginner,
      options = Some [\<lparr>opt_id = ''a'', opt_text = ''first''\<rparr>,
                      \<lparr>opt_id = ''b'', opt_text = ''second''\<rparr>],
      correctOptionId = Some ''a'', language = None, startingCode = None,
      referenceCode = None, testCases = None, hints = None\<rparr>"

definition demo_coding :: "string \<Rightarrow> Question" where
  "demo_coding qid =
     \<lparr>q_id = qid, q_type = CODE, title = ''Write it'', description = ''Sum a list.'',
      q_difficulty = Beginner, options = None, correctOptionId = None,
      language = Some PYTHON, startingCode = None, referenceCode = None,
      testCases = None, hints = None\<rparr>"

definition demo_questions :: "Question list" where
  "demo_questions = [demo_choice ''q1'', demo_choice ''q2'', demo_coding ''q3'']"

definition demo_exam :: "event list" where
  "demo_exam =
     [Start demo_config, GenerationSettles (Json demo_questions),
      SelectOption ''a'', Next, SelectOption ''a'', Next,
      ChangeCode ''return 1'', Tick, RunCode (Some ''return 1'')]"

definition demo_ledger :: ledger where
  "demo_ledger =
     [(''q1'', (newAnswer ''q1'')\<lparr>selectedOptionId := Some ''a''\<rparr>),
      (''q2'', (newAnswer ''q2'')\<lparr>selectedOptionId := Some ''a''\<rparr>),
      (''q3'', (newAnswer ''q3'')\<lparr>code := Some ''return 1''\<rparr>)]"

definition demo_screen :: ExamInterface where
  "demo_screen =
     \<lparr>currentIdx = 2, answers = demo_ledger, elapsed = 1, isGrading = True,
      isGeneratingTests = False,
      pendingRun = Some \<lparr>rc_answers = demo_ledger, rc_question = demo_coding ''q3'',
                         rc_userCode = ''return 1''\<rparr>,
      pendingTests = None, pendingTimeouts = 0\<rparr>"

definition demo_world :: world where
  "demo_world =
     (initial (Some ''key''))
       \<lparr>appState := EXAM, questions := demo_questions, config := Some demo_config,
        exam := Some demo_screen\<rparr>"

definition demo_results :: world where
  "demo_results = handleSubmitAll ''id-1'' ''2025-01-01T00:00:00.000Z'' demo_screen demo_world"

definition demo_saved :: world where
  "demo_saved = handleSave ''2025-01-01T00:05:00.000Z'' demo_screen demo_world"

definition demo_resumed :: world where
  "demo_resumed =
     demo_world
       \<lparr>codequest_saved_exam := codequest_saved_exam demo_saved,
        userAnswers := [],
        initialAnswers := Map_values demo_ledger, initialTimeSpent := 1, initialIdx := 2,
        exam := Some (demo_screen\<lparr>isGrading := False, pendingRun := None\<rparr>)\<rparr>"

definition demo_reset :: "event list" where
  "demo_reset = [Start demo_config, GenerationSettles (Json [demo_coding ''q1'']), ResetCode True]"

definition demo_reset_screen :: ExamInterface where
  "demo_reset_screen =
     \<lparr>currentIdx = 0,
      answers = [(''q1'', (newAnswer ''q1'')\<lparr>code := Some ''# Start your code here''\<rparr>)],
      elapsed = 0, isGrading = False, isGeneratingTests = False, pendingRun = None,
      pendingTests = None, pendingTimeouts = 0\<rparr>"

definition demo_reset_world :: world where
  "demo_reset_world =
     (initial (Some ''key''))
       \<lparr>appState := EXAM, questions := [demo_coding ''q1''], config := Some demo_config,
        exam := Some demo_reset_screen\<rparr>"

definition demo_failed_ledger :: ledger where
  "demo_failed_ledger =
     [(''q1'', (newAnswer ''q1'')\<lparr>selectedOptionId := Some ''a''\<rparr>),
      (''q2'', (newAnswer ''q2'')\<lparr>selectedOptionId := Some ''a''\<rparr>),
      (''q3'', (newAnswer ''q3'')
                 \<lparr>code := Some ''return 1'', isCorrect := Some False,
                  feedback := Some ''System error during grading.'',
                  a_output := Some ''Error connecting to Judge AI.''\<rparr>)]"

definition demo_failed_screen :: ExamInterface where
  "demo_failed_screen =
     demo_screen\<lparr>answers := demo_failed_ledger, isGrading := False, pendingRun := None\<rparr>"

definition demo_failed_world :: world where
  "demo_failed_world = demo_world\<lparr>exam := Some demo_failed_screen\<rparr>"








section \<open>The ledger keeps its shape\<close>

lemma Map_get_set: "Map_get (Map_set k v m) k' = (if k' = k then Some v else Map_get m k')"
  by (induction m) auto

lemma keys_Map_set:
  "Map_keys (Map_set k v m) = (if k \<in> set (Map_keys m) then Map_keys m else Map_keys m @ [k])"
proof (induction m)
  case Nil
  then show ?case by (simp add: Map_keys_def)
next
  case (Cons p m)
  then show ?case by (cases p) (simp add: Map_keys_def)
qed

lemma set_Map_set: "set (Map_set k v m) \<subseteq> insert (k, v) (set m)"
proof (induction m)
  case Nil
  then show ?case by simp
next
  case (Cons p m)
  then show ?case by (cases p) auto
qed

lemma Map_set_fresh: "k \<notin> set (Map_keys m) \<Longrightarrow> Map_set k v m = m @ [(k, v)]"
  by (induction m) (auto simp: Map_keys_def)

lemma Map_get_None: "Map_get m k = None \<longleftrightarrow> k \<notin> set (Map_keys m)"
proof (induction m)
  case Nil
  then show ?case by (simp add: Map_keys_def)
next
  case (Cons p m)
  then show ?case by (cases p) (simp add: Map_keys_def)
qed

lemma Map_get_Some_mem: "Map_get m k = Some v \<Longrightarrow> (k, v) \<in> set m"
  by (induction m) (auto split: if_splits)

lemma ledger_ok_Map_set:
  assumes "ledger_ok qs m" and "questionId a = k" and "answer_ok qs a"
  shows "ledger_ok qs (Map_set k a m)"
proof -
  have d: "distinct (Map_keys (Map_set k a m))"
    using assms(1) by (simp add: ledger_ok_def keys_Map_set)
  have "\<forall>p \<in> set (Map_set k a m). questionId (snd p) = fst p \<and> answer_ok qs (snd p)"
  proof
    fix p assume "p \<in> set (Map_set k a m)"
    then have "p = (k, a) \<or> p \<in> set m" using set_Map_set [of k a m] by auto
    then show "questionId (snd p) = fst p \<and> answer_ok qs (snd p)"
      using assms by (auto simp: ledger_ok_def list_all_iff)
  qed
  then show ?thesis using d by (auto simp: ledger_ok_def list_all_iff)
qed

lemma foldl_Map_set_distinct:
  "distinct (Map_keys (acc @ xs)) \<Longrightarrow> foldl (\<lambda>m (k, v). Map_set k v m) acc xs = acc @ xs"
proof (induction xs arbitrary: acc)
  case Nil
  then show ?case by simp
next
  case (Cons x xs)
  obtain k v where x: "x = (k, v)" by (cases x)
  from Cons.prems have fresh: "k \<notin> set (Map_keys acc)"
    by (auto simp: x Map_keys_def)
  from Cons.prems have "distinct (Map_keys ((acc @ [x]) @ xs))" by simp
  from Cons.IH [OF this] show ?case
    by (simp add: x Map_set_fresh [OF fresh])
qed

lemma Map_new_distinct: "distinct (Map_keys xs) \<Longrightarrow> Map_new xs = xs"
  using foldl_Map_set_distinct [of "[]" xs] by (simp add: Map_new_def)

lemma ledger_ok_Nil: "ledger_ok qs []"
  by (simp add: ledger_ok_def Map_keys_def)

lemma existing_ok:
  assumes "ledger_ok qs m" and "cq \<in> set qs"
  shows "questionId (existing cq m) = q_id cq \<and> answer_ok qs (existing cq m)"
proof (cases "Map_get m (q_id cq)")
  case None
  then show ?thesis using assms(2)
    by (simp add: existing_def newAnswer_def answer_ok_def)
next
  case (Some a)
  then have "(q_id cq, a) \<in> set m" by (rule Map_get_Some_mem)
  then show ?thesis using assms(1) Some
    by (auto simp: existing_def ledger_ok_def list_all_iff)
qed

lemma ledger_ok_handleOptionSelect:
  "ledger_ok qs m \<Longrightarrow> cq \<in> set qs \<Longrightarrow> ledger_ok qs (handleOptionSelect cq optId m)"
  unfolding handleOptionSelect_def
  by (rule ledger_ok_Map_set) (auto simp: newAnswer_def answer_ok_def)

lemma ledger_ok_handleCodeChange:
  "ledger_ok qs m \<Longrightarrow> cq \<in> set qs \<Longrightarrow> ledger_ok qs (handleCodeChange cq c m)"
  unfolding handleCodeChange_def
  using existing_ok [of qs m cq]
  by (intro ledger_ok_Map_set) (auto simp: answer_ok_def)

lemma ledger_ok_handleResetCode:
  "ledger_ok qs m \<Longrightarrow> cq \<in> set qs \<Longrightarrow> ledger_ok qs (handleResetCode b cq m)"
  unfolding handleResetCode_def
  using existing_ok [of qs m cq]
  by (auto intro!: ledger_ok_Map_set simp: answer_ok_def)

lemma ledger_ok_handleRunCode_resume:
  "ledger_ok qs (rc_answers cl) \<Longrightarrow> rc_question cl \<in> set qs \<Longrightarrow>
   ledger_ok qs (handleRunCode_resume cl r)"
  unfolding handleRunCode_resume_def
  using existing_ok [of qs "rc_answers cl" "rc_question cl"]
  by (intro ledger_ok_Map_set) (auto simp: answer_ok_def)

lemma ledger_ok_handleGenerateTestCases_resume:
  "ledger_ok qs (tc_answers cl) \<Longrightarrow> questionId (tc_existing cl) = q_id (tc_question cl) \<Longrightarrow>
   answer_ok qs (tc_existing cl) \<Longrightarrow>
   ledger_ok qs (handleGenerateTestCases_resume cl cases)"
  unfolding handleGenerateTestCases_resume_def
  by (intro ledger_ok_Map_set) (auto simp: answer_ok_def)

lemma currentQuestion_mem: "currentQuestion qs i = Some cq \<Longrightarrow> cq \<in> set qs \<and> i < length qs"
  by (auto simp: currentQuestion_def split: if_splits)

lemma tick_fields:
  "currentIdx (tick limit e) = currentIdx e" "answers (tick limit e) = answers e"
  "pendingRun (tick limit e) = pendingRun e" "pendingTests (tick limit e) = pendingTests e"
  by (simp_all add: tick_def Let_def)

lemma exam_ok_examEvent:
  assumes "exam_ok qs e" and "examEvent qs limit key ev e = Inr e'"
  shows "exam_ok qs e'"
proof -
  from assms(2) obtain cq where cq: "currentQuestion qs (currentIdx e) = Some cq"
    by (cases "currentQuestion qs (currentIdx e)") (simp_all add: examEvent_def)
  then have mem: "cq \<in> set qs" and idx: "currentIdx e < length qs"
    using currentQuestion_mem by blast+
  from assms(1) have led: "ledger_ok qs (answers e)" by (simp add: exam_ok_def)
  note ee = assms(2) [unfolded examEvent_def cq option.case]
  show ?thesis
  proof (cases ev)
    case (SelectOption x)
    from ee [unfolded SelectOption event.case] show ?thesis using assms(1) mem led
      by (auto simp: exam_ok_def ledger_ok_handleOptionSelect split: if_splits)
  next
    case (ChangeCode x)
    from ee [unfolded ChangeCode event.case] show ?thesis using assms(1) mem led
      by (auto simp: exam_ok_def ledger_ok_handleCodeChange split: if_splits)
  next
    case (ResetCode x)
    from ee [unfolded ResetCode event.case] show ?thesis using assms(1) mem led
      by (auto simp: exam_ok_def ledger_ok_handleResetCode split: if_splits)
  next
    case (RunCode x)
    from ee [unfolded RunCode event.case] show ?thesis using assms(1) mem led
      by (auto simp: exam_ok_def handleRunCode_call_def Let_def
          split: if_splits option.splits)
  next
    case (JudgeSettles x)
    from ee [unfolded JudgeSettles event.case] show ?thesis using assms(1) mem led
      by (auto simp: exam_ok_def ledger_ok_handleRunCode_resume
          split: if_splits option.splits sum.splits)
  next
    case GenerateTests
    from ee [unfolded GenerateTests event.case] show ?thesis
      using assms(1) mem led existing_ok [OF led mem]
      by (auto simp: exam_ok_def handleGenerateTestCases_call_def
          split: if_splits option.splits)
  next
    case (TestsSettle x)
    from ee [unfolded TestsSettle event.case] show ?thesis using assms(1) mem led
      by (auto simp: exam_ok_def ledger_ok_handleGenerateTestCases_resume
          split: if_splits option.splits sum.splits)
  next
    case (Goto x)
    from ee [unfolded Goto event.case] show ?thesis using assms(1)
      by (auto simp: exam_ok_def split: if_splits)
  next
    case Previous
    from ee [unfolded Previous event.case] show ?thesis using assms(1) idx
      by (auto simp: exam_ok_def)
  next
    case Next
    from ee [unfolded Next event.case] show ?thesis using assms(1) idx
      by (auto simp: exam_ok_def)
  next
    case Tick
    from ee [unfolded Tick event.case] show ?thesis using assms(1)
      by (auto simp: exam_ok_def tick_fields)
  qed (use ee in \<open>simp_all\<close>)
qed

lemma ledger_entries:
  assumes "ledger_ok qs m"
  shows "map (\<lambda>a. (questionId a, a)) (Map_values m) = m"
    and "map questionId (Map_values m) = Map_keys m"
proof -
  have *: "\<forall>p \<in> set m. questionId (snd p) = fst p"
    using assms by (auto simp: ledger_ok_def list_all_iff)
  show "map (\<lambda>a. (questionId a, a)) (Map_values m) = m"
    unfolding Map_values_def using * by (induction m) auto
  show "map questionId (Map_values m) = Map_keys m"
    unfolding Map_values_def Map_keys_def using * by (induction m) auto
qed

lemma answers_ok_values: "ledger_ok qs m \<Longrightarrow> answers_ok qs (Map_values m)"
  using ledger_entries(2) [of qs m]
  by (auto simp: answers_ok_def ledger_ok_def list_all_iff Map_values_def)

lemma ledger_of_answers:
  assumes "answers_ok qs as"
  shows "Map_new (map (\<lambda>a. (questionId a, a)) as) = map (\<lambda>a. (questionId a, a)) as"
    and "ledger_ok qs (map (\<lambda>a. (questionId a, a)) as)"
proof -
  have k: "Map_keys (map (\<lambda>a. (questionId a, a)) as) = map questionId as"
    by (simp add: Map_keys_def comp_def)
  with assms have "distinct (Map_keys (map (\<lambda>a. (questionId a, a)) as))"
    by (simp add: answers_ok_def)
  then show "Map_new (map (\<lambda>a. (questionId a, a)) as) = map (\<lambda>a. (questionId a, a)) as"
    by (rule Map_new_distinct)
  show "ledger_ok qs (map (\<lambda>a. (questionId a, a)) as)"
    using assms k by (auto simp: ledger_ok_def answers_ok_def list_all_iff)
qed

lemma Map_new_values: "ledger_ok qs m \<Longrightarrow> Map_new (map (\<lambda>a. (questionId a, a)) (Map_values m)) = m"
  using ledger_of_answers(1) [OF answers_ok_values, of qs m] ledger_entries(1) [of qs m]
  by simp

lemma mount_ok:
  assumes "answers_ok qs as" and "i < length qs"
  shows "\<exists>e. mount qs limit as t i = Inr e \<and> exam_ok qs e \<and>
             answers e = map (\<lambda>a. (questionId a, a)) as \<and> elapsed e = t \<and> currentIdx e = i"
  using assms ledger_of_answers [OF assms(1)]
  by (simp add: mount_def currentQuestion_def exam_ok_def)

lemma mount_Inr: "mount qs limit as t i = Inr e \<Longrightarrow> i < length qs"
  by (auto simp: mount_def currentQuestion_def split: if_splits)

section \<open>Every step keeps the invariant\<close>

lemma world_ok_initial: "world_ok (initial key)"
  by (simp add: world_ok_def screen_ok_def snapshot_ok_def key_ok_def initial_def)

lemma world_ok_reload: "world_ok w \<Longrightarrow> world_ok (reload w)"
  by (simp add: world_ok_def screen_ok_def snapshot_ok_def key_ok_def reload_def initial_def)

lemma getAiClient_cases: "getAiClient k = Inl e \<Longrightarrow> e = API_KEY_missing"
  by (auto simp: getAiClient_def split: option.splits if_splits)

lemma generate_Inr: "generateExamQuestions k reply = Inr qs \<Longrightarrow> getAiClient k \<noteq> Inl API_KEY_missing"
  by (auto simp: generateExamQuestions_def split: sum.splits)

lemma step_ok_SETUP:
  assumes ok: "world_ok w" and st: "appState w = SETUP" and nr: "ev \<noteq> Reload"
    and s: "step w ev = Inr w'"
  shows "world_ok w'"
proof -
  note ss = s [unfolded step_def, simplified nr st if_False AppState.case]
  from ok st have scr: "exam w = None" "questions w = []" "userAnswers w = []"
    by (simp_all add: world_ok_def screen_ok_def)
  from ok have snap: "snapshot_ok (codequest_saved_exam w)" and key: "key_ok w"
    by (simp_all add: world_ok_def)
  show ?thesis
  proof (cases ev)
    case (Start c)
    from ss [unfolded Start event.case] have "w' = handleStartExam_call c w" by simp
    then show ?thesis using scr snap key
      by (simp add: world_ok_def screen_ok_def key_ok_def handleStartExam_call_def)
  next
    case ViewProgress
    from ss [unfolded ViewProgress event.case] have "w' = w\<lparr>appState := PROGRESS\<rparr>" by simp
    then show ?thesis using scr snap key
      by (simp add: world_ok_def screen_ok_def key_ok_def)
  next
    case Resume
    note r = ss [unfolded Resume event.case]
    show ?thesis
    proof (cases "codequest_saved_exam w")
      case None
      then have "handleResumeExam w = w" by (simp add: handleResumeExam_def)
      with r st have "w' = w\<lparr>exam := None\<rparr>" by (simp add: render_def)
      then show ?thesis using scr snap key st
        by (simp add: world_ok_def screen_ok_def key_ok_def)
    next
      case (Some sto)
      with snap obtain p where p: "sto = Saved p"
        and pi: "sv_currentIdx p < length (sv_questions p)"
        and pa: "answers_ok (sv_questions p) (sv_answers p)"
        by (cases sto) (auto simp: snapshot_ok_def)
      from mount_ok [OF pa pi, of "timeLimit (sv_config p)" "sv_timeSpent p"]
      obtain e where m: "mount (sv_questions p) (timeLimit (sv_config p)) (sv_answers p)
           (sv_timeSpent p) (sv_currentIdx p) = Inr e" and eo: "exam_ok (sv_questions p) e"
        by blast
      have "render (handleResumeExam w) =
          Inr (w\<lparr>config := Some (sv_config p), questions := sv_questions p,
            initialAnswers := sv_answers p, initialTimeSpent := sv_timeSpent p,
            initialIdx := sv_currentIdx p, appState := EXAM, exam := Some e\<rparr>)"
        using Some p m by (simp add: handleResumeExam_def render_def)
      with r have "w' = w\<lparr>config := Some (sv_config p), questions := sv_questions p,
            initialAnswers := sv_answers p, initialTimeSpent := sv_timeSpent p,
            initialIdx := sv_currentIdx p, appState := EXAM, exam := Some e\<rparr>" by simp
      then show ?thesis using eo snap key Some
        by (simp add: world_ok_def screen_ok_def key_ok_def)
    qed
  qed (use ss in \<open>simp_all\<close>)
qed

lemma step_ok_LOADING:
  assumes ok: "world_ok w" and st: "appState w = LOADING" and nr: "ev \<noteq> Reload"
    and s: "step w ev = Inr w'"
  shows "world_ok w'"
proof -
  note ss = s [unfolded step_def, simplified nr st if_False AppState.case]
  from ok st have scr: "exam w = None" "config w \<noteq> None" "questions w = []"
      "userAnswers w = []" "initialAnswers w = []" "initialTimeSpent w = 0" "initialIdx w = 0"
    by (simp_all add: world_ok_def screen_ok_def)
  from ok have snap: "snapshot_ok (codequest_saved_exam w)" and key: "key_ok w"
    by (simp_all add: world_ok_def)
  from scr(2) obtain c where c: "config w = Some c" by blast
  show ?thesis
  proof (cases ev)
    case (GenerationSettles reply)
    note r = ss [unfolded GenerationSettles event.case]
    show ?thesis
    proof (cases "generateExamQuestions (VITE_API_KEY w) reply")
      case (Inl err)
      with r st have "w' = w\<lparr>alerts := alerts w @ [Generation_failed err], appState := SETUP,
          exam := None\<rparr>"
        by (simp add: handleStartExam_resume_def render_def)
      then show ?thesis using scr snap key
        by (simp add: world_ok_def screen_ok_def key_ok_def)
    next
      case (Inr qs)
      with r c scr obtain e where m: "mount qs (timeLimit c) [] 0 0 = Inr e"
        and w': "w' = w\<lparr>questions := qs, appState := EXAM, exam := Some e\<rparr>"
        by (auto simp: handleStartExam_resume_def render_def split: sum.splits)
      from mount_Inr [OF m] have len: "0 < length qs" .
      have "answers_ok qs []" by (simp add: answers_ok_def)
      from mount_ok [OF this len, of "timeLimit c" 0] m have eo: "exam_ok qs e" by auto
      from generate_Inr [OF Inr] have "getAiClient (VITE_API_KEY w) \<noteq> Inl API_KEY_missing" .
      then show ?thesis using w' eo snap c
        by (simp add: world_ok_def screen_ok_def key_ok_def)
    qed
  qed (use ss in \<open>simp_all\<close>)
qed

lemma step_ok_RESULTS:
  assumes ok: "world_ok w" and st: "appState w = RESULTS" and nr: "ev \<noteq> Reload"
    and s: "step w ev = Inr w'"
  shows "world_ok w'"
proof -
  note ss = s [unfolded step_def, simplified nr st if_False AppState.case]
  from ok st have scr: "exam w = None" "codequest_saved_exam w = None"
    by (simp_all add: world_ok_def screen_ok_def)
  from ss have "w' = handleRestart w"
    by (cases ev; cases "config w") simp_all
  then show ?thesis using scr
    by (simp add: world_ok_def screen_ok_def key_ok_def snapshot_ok_def handleRestart_def)
qed

lemma step_ok_PROGRESS:
  assumes ok: "world_ok w" and st: "appState w = PROGRESS" and nr: "ev \<noteq> Reload"
    and s: "step w ev = Inr w'"
  shows "world_ok w'"
proof -
  note ss = s [unfolded step_def, simplified nr st if_False AppState.case]
  from ok st have scr: "exam w = None" "questions w = []" "userAnswers w = []"
    by (simp_all add: world_ok_def screen_ok_def)
  from ok have snap: "snapshot_ok (codequest_saved_exam w)" and key: "key_ok w"
    by (simp_all add: world_ok_def)
  from ss have "w' = w\<lparr>appState := SETUP\<rparr>"
    by (cases ev) simp_all
  then show ?thesis using scr snap key
    by (simp add: world_ok_def screen_ok_def key_ok_def)
qed

lemma world_ok_handleSubmitAll:
  assumes ok: "world_ok w" and st: "appState w = EXAM" and e: "exam w = Some e"
  shows "world_ok (handleSubmitAll uuid now e w)"
proof -
  from ok st e obtain c where c: "config w = Some c" and eo: "exam_ok (questions w) e"
    by (auto simp: world_ok_def screen_ok_def)
  from eo have ne: "questions w \<noteq> []" and led: "ledger_ok (questions w) (answers e)"
    by (auto simp: exam_ok_def)
  from ok have key: "key_ok w" by (simp add: world_ok_def)
  show ?thesis using c ne answers_ok_values [OF led] key
    by (simp add: world_ok_def screen_ok_def key_ok_def snapshot_ok_def handleSubmitAll_def
        handleExamComplete_def ResultsView_effect_def historyItem_def)
qed

lemma world_ok_handleSave:
  assumes ok: "world_ok w" and st: "appState w = EXAM" and e: "exam w = Some e"
  shows "world_ok (handleSave now e w)"
proof -
  from ok st e obtain c where c: "config w = Some c" and eo: "exam_ok (questions w) e"
    by (auto simp: world_ok_def screen_ok_def)
  from eo have idx: "currentIdx e < length (questions w)"
    and led: "ledger_ok (questions w) (answers e)"
    by (auto simp: exam_ok_def)
  from ok idx have key: "getAiClient (VITE_API_KEY w) \<noteq> Inl API_KEY_missing"
    by (auto simp: world_ok_def key_ok_def)
  show ?thesis using c idx answers_ok_values [OF led] key
    by (simp add: world_ok_def screen_ok_def key_ok_def snapshot_ok_def handleSave_def
        handleSaveExam_def)
qed

lemma step_ok_EXAM:
  assumes ok: "world_ok w" and st: "appState w = EXAM" and nr: "ev \<noteq> Reload"
    and s: "step w ev = Inr w'"
  shows "world_ok w'"
proof -
  from ok st obtain e c where e: "exam w = Some e" and c: "config w = Some c"
    and eo: "exam_ok (questions w) e"
    by (auto simp: world_ok_def screen_ok_def split: option.splits)
  note ss = s [unfolded step_def, simplified nr st e c if_False AppState.case prod.case option.case]
  from ok have snap: "snapshot_ok (codequest_saved_exam w)" and key: "key_ok w"
    by (simp_all add: world_ok_def)
  have other: "world_ok w'"
    if "(case examEvent (questions w) (timeLimit c) (VITE_API_KEY w) ev e of
           Inl err \<Rightarrow> Inl err | Inr e' \<Rightarrow> Inr (w\<lparr>exam := Some e'\<rparr>)) = Inr w'"
  proof -
    from that obtain e' where ee: "examEvent (questions w) (timeLimit c) (VITE_API_KEY w) ev e = Inr e'"
      and w': "w' = w\<lparr>exam := Some e'\<rparr>"
      by (auto split: sum.splits)
    from exam_ok_examEvent [OF eo ee] show ?thesis using w' st c snap key
      by (simp add: world_ok_def screen_ok_def key_ok_def)
  qed
  show ?thesis
  proof (cases ev)
    case (TimeoutFires uuid now)
    from ss [unfolded TimeoutFires event.case] have "w' = handleSubmitAll uuid now e w"
      by (simp split: if_splits)
    then show ?thesis using world_ok_handleSubmitAll [OF ok st e] by simp
  next
    case (SubmitAll uuid now)
    from ss [unfolded SubmitAll event.case] have "w' = handleSubmitAll uuid now e w"
      by (simp split: if_splits)
    then show ?thesis using world_ok_handleSubmitAll [OF ok st e] by simp
  next
    case (Save now)
    from ss [unfolded Save event.case] have "w' = handleSave now e w"
      by (simp split: if_splits)
    then show ?thesis using world_ok_handleSave [OF ok st e] by simp
  qed (use ss other in \<open>simp_all\<close>)
qed

lemma step_ok: "world_ok w \<Longrightarrow> step w ev = Inr w' \<Longrightarrow> world_ok w'"
proof (cases "ev = Reload")
  case True
  assume "world_ok w" "step w ev = Inr w'"
  then show ?thesis using True world_ok_reload [of w] by (simp add: step_def)
next
  case False
  assume "world_ok w" "step w ev = Inr w'"
  then show ?thesis
    using False step_ok_SETUP step_ok_LOADING step_ok_EXAM step_ok_RESULTS step_ok_PROGRESS
    by (cases "appState w") blast+
qed

lemma run_ok: "world_ok w \<Longrightarrow> run w evs = Inr w' \<Longrightarrow> world_ok w'"
proof (induction evs arbitrary: w)
  case Nil
  then show ?case by simp
next
  case (Cons ev evs)
  then show ?case by (auto split: sum.splits dest: step_ok)
qed

lemma reachable_ok: "run (initial key) evs = Inr w \<Longrightarrow> world_ok w"
  using run_ok [OF world_ok_initial] .

section \<open>The scoring loop\<close>

lemma foldl_gradeAnswer:
  "foldl (gradeAnswer qs) acc as =
     (fst acc @ map (\<lambda>a. case find (\<lambda>q. q_id q = questionId a) qs of
                              None \<Rightarrow> a
                            | Some q \<Rightarrow> a\<lparr>isCorrect := Some (computedCorrect q a)\<rparr>) as,
      snd acc + length (filter (\<lambda>a. case find (\<lambda>q. q_id q = questionId a) qs of
                              None \<Rightarrow> False
                            | Some q \<Rightarrow> computedCorrect q a) as))"
proof (induction as arbitrary: acc)
  case Nil
  then show ?case by simp
next
  case (Cons a as)
  show ?case unfolding foldl_Cons Cons.IH
    by (simp add: gradeAnswer_def split: option.splits)
qed



lemma score_le:
  assumes "answers_ok qs as"
  shows "score qs as \<le> length qs"
proof -
  have "score qs as \<le> length as"
    by (simp add: score_def foldl_gradeAnswer)
  also have "length as = card (set (map questionId as))"
    using assms distinct_card [of "map questionId as"] by (simp add: answers_ok_def)
  also have "\<dots> \<le> card (set (map q_id qs))"
    using assms by (intro card_mono) (auto simp: answers_ok_def answer_ok_def list_all_iff)
  also have "\<dots> \<le> length qs"
    using card_length [of "map q_id qs"] by simp
  finally show ?thesis .
qed

section \<open>Rounding to a double\<close>



lemma floor_rat_one_numeral:
  "\<lfloor>1 / numeral b :: rat\<rfloor> = 1 div numeral b"
  using floor_divide_of_int_eq [of 1 "numeral b", where ?'a = rat] by simp



lemma rhe_error: "\<bar>of_int (round_half_even y) - y\<bar> \<le> 1 / 2"
proof -
  have "of_int \<lfloor>y\<rfloor> \<le> y" "y < of_int \<lfloor>y\<rfloor> + 1" by linarith+
  then show ?thesis by (auto simp: round_half_even_def)
qed

lemma rhe_le: "y \<le> of_int K \<Longrightarrow> round_half_even y \<le> K"
proof -
  assume y: "y \<le> of_int K"
  then have f: "\<lfloor>y\<rfloor> \<le> K" by (simp add: floor_le_iff) 
  show ?thesis
  proof (cases "\<lfloor>y\<rfloor> = K")
    case True
    with y have "y - of_int \<lfloor>y\<rfloor> \<le> 0" by simp
    then show ?thesis using True by (simp add: round_half_even_def)
  next
    case False
    with f have "\<lfloor>y\<rfloor> + 1 \<le> K" by simp
    then show ?thesis using f by (simp add: round_half_even_def)
  qed
qed

lemma rhe_nonneg: "0 \<le> y \<Longrightarrow> 0 \<le> round_half_even y"
  by (auto simp: round_half_even_def)

lemma log2_floor_le:
  assumes "0 < a"
  shows "power_int 2 (log2_floor a) \<le> a"
proof (cases "1 \<le> a")
  case True
  then have pos: "0 < \<lfloor>a\<rfloor>" by simp
  from bitlen_bounds [OF pos] have "2 ^ nat (bitlen \<lfloor>a\<rfloor> - 1) \<le> \<lfloor>a\<rfloor>" by simp
  then have "(of_int (2 ^ nat (bitlen \<lfloor>a\<rfloor> - 1)) :: rat) \<le> of_int \<lfloor>a\<rfloor>"
    by (simp only: of_int_le_iff)
  also have "\<dots> \<le> a" by simp
  finally have "(2 :: rat) ^ nat (bitlen \<lfloor>a\<rfloor> - 1) \<le> a" by simp
  moreover have "0 \<le> bitlen \<lfloor>a\<rfloor> - 1"
    using pos bitlen_eq_zero_iff [of "\<lfloor>a\<rfloor>"] bitlen_nonneg [of "\<lfloor>a\<rfloor>"] by linarith
  ultimately show ?thesis using True by (simp add: log2_floor_def power_int_def)
next
  case False
  with assms have "1 < 1 / a" by simp
  then have pos: "0 < \<lfloor>1 / a\<rfloor>" by simp
  from bitlen_bounds [OF pos] have "\<lfloor>1 / a\<rfloor> < 2 ^ nat (bitlen \<lfloor>1 / a\<rfloor>)" by simp
  then have "\<lfloor>1 / a\<rfloor> + 1 \<le> 2 ^ nat (bitlen \<lfloor>1 / a\<rfloor>)" by simp
  then have "(of_int (\<lfloor>1 / a\<rfloor> + 1) :: rat) \<le> of_int (2 ^ nat (bitlen \<lfloor>1 / a\<rfloor>))"
    by (simp only: of_int_le_iff)
  moreover have "1 / a < of_int (\<lfloor>1 / a\<rfloor> + 1)" by linarith
  ultimately have "1 / a \<le> (2 :: rat) ^ nat (bitlen \<lfloor>1 / a\<rfloor>)" by simp
  then have "1 \<le> a * 2 ^ nat (bitlen \<lfloor>1 / a\<rfloor>)"
    using assms by (simp add: field_simps)
  then have "inverse ((2 :: rat) ^ nat (bitlen \<lfloor>1 / a\<rfloor>)) \<le> a"
    by (simp add: field_simps)
  moreover have "power_int (2 :: rat) (- bitlen \<lfloor>1 / a\<rfloor>) = inverse (2 ^ nat (bitlen \<lfloor>1 / a\<rfloor>))"
  proof -
    have "power_int (2 :: rat) (bitlen \<lfloor>1 / a\<rfloor>) = 2 ^ nat (bitlen \<lfloor>1 / a\<rfloor>)"
      using bitlen_nonneg [of "\<lfloor>1 / a\<rfloor>"] by (simp add: power_int_def)
    then show ?thesis by (simp only: power_int_minus)
  qed
  ultimately show ?thesis using False by (simp add: log2_floor_def)
qed

lemma exponent_le:
  assumes a: "0 < a" and k: "a < power_int 2 k" and lo: "- 1021 \<le> k"
  shows "exponent a \<le> k - 53"
proof -
  let ?lb = "log2_floor a"
  have lb: "?lb < k"
  proof (rule ccontr)
    assume "\<not> ?lb < k"
    then have "power_int (2 :: rat) k \<le> power_int 2 ?lb"
      by (intro power_int_increasing) simp_all
    with log2_floor_le [OF a] k show False by simp
  qed
  have "?lb - 51 \<le> k - 53" if c: "2 ^ 53 \<le> a / power_int 2 (?lb - 52)"
  proof (rule ccontr)
    assume "\<not> ?lb - 51 \<le> k - 53"
    with lb have eq: "k = ?lb + 1" by simp
    have "?lb + 1 = (?lb - 52) + 53" by simp
    then have "power_int (2 :: rat) (?lb + 1) = power_int 2 ((?lb - 52) + 53)"
      by (rule arg_cong)
    also have "\<dots> = power_int 2 (?lb - 52) * power_int 2 53"
      by (rule power_int_add) simp
    also have "\<dots> = power_int 2 (?lb - 52) * 2 ^ 53" by simp
    also have "\<dots> \<le> a"
      using c by (simp add: field_simps)
    finally show False using k eq by simp
  qed
  then show ?thesis using lb lo by (auto simp: exponent_def)
qed

lemma double_bound:
  assumes x: "0 < x" and c: "x \<le> of_nat c" and k: "x < power_int 2 k"
    and kr: "- 1021 \<le> k" "k \<le> 53" and cr: "c < 2 ^ 1024"
  shows "\<exists>d. double x = Num d \<and> 0 \<le> d \<and> d \<le> of_nat c \<and> \<bar>d - x\<bar> \<le> power_int 2 (k - 54)"
proof -
  let ?e = "exponent x"
  let ?p = "power_int (2 :: rat) ?e"
  let ?m = "round_half_even (x / ?p)"
  let ?d = "of_int ?m * ?p"
  have e: "?e \<le> k - 53" using exponent_le [OF x k kr(1)] .
  then have e0: "?e \<le> 0" using kr(2) by simp
  have p: "0 < ?p" by simp
  have pinv: "1 / ?p = of_int (2 ^ nat (- ?e))"
    using e0 by (simp add: power_int_def field_simps)
  have "x / ?p \<le> of_nat c / ?p" using c p by (simp add: divide_right_mono)
  also have "of_nat c / ?p = of_int (int c * 2 ^ nat (- ?e))"
    using pinv by (simp add: field_simps)
  finally have "?m \<le> int c * 2 ^ nat (- ?e)" by (rule rhe_le)
  then have "(of_int ?m :: rat) \<le> of_int (int c * 2 ^ nat (- ?e))" by (simp only: of_int_le_iff)
  then have "?d \<le> of_int (int c * 2 ^ nat (- ?e)) * ?p" using p by (simp add: mult_right_mono)
  also have "\<dots> = of_nat c" using pinv p by (simp add: field_simps)
  finally have dc: "?d \<le> of_nat c" .
  have "0 \<le> x / ?p" using x p by simp
  then have "0 \<le> ?m" by (rule rhe_nonneg)
  then have d0: "0 \<le> ?d" using p by simp
  have "\<bar>?d - x\<bar> = \<bar>of_int ?m - x / ?p\<bar> * ?p"
    using p by (simp add: abs_mult field_simps flip: abs_mult_pos)
  also have "\<dots> \<le> 1 / 2 * ?p"
    using rhe_error [of "x / ?p"] p by (intro mult_right_mono) simp_all
  also have "\<dots> = power_int 2 (?e - 1)"
    by (simp add: power_int_diff)
  also have "\<dots> \<le> power_int 2 (k - 54)"
    using e by (intro power_int_increasing) simp_all
  finally have err: "\<bar>?d - x\<bar> \<le> power_int 2 (k - 54)" .
  have "(of_nat c :: rat) < 2 ^ 1024"
    using cr by (metis of_nat_less_iff of_nat_numeral of_nat_power)
  with dc have "\<not> (2 ^ 1024 :: rat) \<le> ?d" by simp
  then have "double x = Num ?d"
    using x by (simp add: double_def)
  then show ?thesis using d0 dc err by blast
qed

section \<open>The percentage in doubles\<close>






lemma double_0: "double 0 = Num 0"
  by (simp add: double_def)

lemma pct_0: "0 < n \<Longrightarrow> Math_round (js_times (js_div 0 n) 100) = Num 0"
  by (simp add: js_div_def double_0 floor_rat_one_numeral)


lemma pct_steps:
  assumes n: "0 < n" and s: "0 < s" "s \<le> n"
  shows "\<exists>d1 d2. js_div s n = Num d1 \<and> js_times (Num d1) 100 = Num d2 \<and>
           0 \<le> d2 \<and> d2 \<le> 100 \<and>
           \<bar>d1 - of_nat s / of_nat n\<bar> \<le> power_int 2 (- 53) \<and>
           \<bar>d2 - d1 * 100\<bar> \<le> power_int 2 (- 47)"
proof -
  let ?x = "of_nat s / of_nat n :: rat"
  have x: "0 < ?x" "?x \<le> of_nat 1" "?x < power_int 2 1"
    using n s by (simp_all add: field_simps)
  from double_bound [OF x] obtain d1 where d1: "double ?x = Num d1" "0 \<le> d1" "d1 \<le> 1"
    and e1: "\<bar>d1 - ?x\<bar> \<le> power_int 2 (- 53)" by auto
  have j: "js_div s n = Num d1" using n d1(1) by (simp add: js_div_def)
  show ?thesis
  proof (cases "d1 = 0")
    case True
    then show ?thesis using j e1 by (auto simp: double_0)
  next
    case False
    with d1 have y: "0 < d1 * 100" "d1 * 100 \<le> of_nat 100" "d1 * 100 < power_int 2 7"
      by simp_all
    from double_bound [OF y] obtain d2 where "double (d1 * 100) = Num d2" "0 \<le> d2" "d2 \<le> 100"
      "\<bar>d2 - d1 * 100\<bar> \<le> power_int 2 (- 47)" by auto
    then show ?thesis using j e1 by auto
  qed
qed

lemma pct_range:
  assumes "0 < n" and "s \<le> n"
  shows "\<exists>p. Math_round (js_times (js_div s n) 100) = Num (of_int p) \<and> 0 \<le> p \<and> p \<le> 100"
proof (cases "s = 0")
  case True
  then show ?thesis using pct_0 [OF assms(1)] by (intro exI [of _ 0]) simp
next
  case False
  with pct_steps [OF assms(1) _ assms(2)] obtain d1 d2
    where "js_div s n = Num d1" "js_times (Num d1) 100 = Num d2" "0 \<le> d2" "d2 \<le> 100"
    by auto
  then have "Math_round (js_times (js_div s n) 100) = Num (of_int \<lfloor>d2 + 1 / 2\<rfloor>)" "0 \<le> \<lfloor>d2 + 1 / 2\<rfloor>" "\<lfloor>d2 + 1 / 2\<rfloor> \<le> 100"
    by (simp_all add: le_floor_iff floor_le_iff)
  then show ?thesis by blast
qed



lemma percentage_bounds:
  assumes "qs \<noteq> []" and "score qs as \<le> length qs"
  shows "\<exists>p. percentage qs as = Num (of_int p) \<and> 0 \<le> p \<and> p \<le> 100"
  using pct_range [of "length qs" "score qs as"] assms by (simp add: percentage_def)


lemma percentage_Nil: "percentage [] as = NaN"
  by (simp add: percentage_def score_def foldl_gradeAnswer js_div_def)

section \<open>Reachable states\<close>

lemma run_append:
  "run w (xs @ ys) = (case run w xs of Inl err \<Rightarrow> Inl err | Inr w' \<Rightarrow> run w' ys)"
  by (induction xs arbitrary: w) (auto split: sum.splits)

lemma exam_mounted:
  assumes "world_ok w" and "exam w = Some e"
  shows "appState w = EXAM \<and> config w \<noteq> None \<and> exam_ok (questions w) e"
  using assms by (cases "appState w") (auto simp: world_ok_def screen_ok_def)

lemma demo_run: "run (initial (Some ''key'')) demo_exam = Inr demo_world"
  by code_simp

lemma demo_mounted: "exam demo_world = Some demo_screen"
  by (simp add: demo_world_def)

section \<open>The ledger invariant\<close>

text \<open>
  C9. In every state that the application can reach, the ledger of the mounted exam
  screen has one entry per key (its keys are distinct), every key is the identity of a
  question of the session, and the ledger has at most as many entries as the session
  has questions. Sessions that start with an empty ledger are among these, as are
  resumed ones.
\<close>

theorem ledger_one_answer_per_question:
  assumes "run (initial key) evs = Inr w" and "exam w = Some e"
  shows "distinct (Map_keys (answers e)) \<and>
         set (Map_keys (answers e)) \<subseteq> set (map q_id (questions w)) \<and>
         length (answers e) \<le> length (questions w)"
proof -
  from exam_mounted [OF reachable_ok [OF assms(1)] assms(2)]
  have led: "ledger_ok (questions w) (answers e)" by (simp add: exam_ok_def)
  then have d: "distinct (Map_keys (answers e))" by (simp add: ledger_ok_def)
  from led have sub: "set (Map_keys (answers e)) \<subseteq> set (map q_id (questions w))"
    by (auto simp: ledger_ok_def answer_ok_def list_all_iff Map_keys_def)
  have "length (answers e) = card (set (Map_keys (answers e)))"
    using distinct_card [OF d] by (simp add: Map_keys_def)
  also have "\<dots> \<le> card (set (map q_id (questions w)))"
    using sub by (intro card_mono) simp_all
  also have "\<dots> \<le> length (questions w)"
    using card_length [of "map q_id (questions w)"] by simp
  finally show ?thesis using d sub by blast
qed

theorem ledger_one_answer_per_question_witness:
  "run (initial (Some ''key'')) demo_exam = Inr demo_world \<and>
   exam demo_world = Some demo_screen \<and>
   Map_keys (answers demo_screen) = [''q1'', ''q2'', ''q3''] \<and>
   distinct (Map_keys (answers demo_screen)) \<and>
   length (answers demo_screen) \<le> length (questions demo_world)"
  using ledger_one_answer_per_question [OF demo_run demo_mounted] demo_run demo_mounted
  by (simp add: demo_screen_def demo_ledger_def Map_keys_def)

section \<open>What the scorer computes\<close>

lemma results_screen:
  assumes "world_ok w" and "appState w = RESULTS"
  obtains c h rest where "config w = Some c" and "codequest_history w = h # rest"
    and "h = historyItem c (questions w) (userAnswers w) (timeSpent w) (h_id h) (h_date h)"
    and "questions w \<noteq> []" and "answers_ok (questions w) (userAnswers w)"
    and "codequest_saved_exam w = None"
  using assms
  by (auto simp: world_ok_def screen_ok_def split: option.splits list.splits)



lemma score_filter:
  "score qs as =
     length (filter (\<lambda>a. case find (\<lambda>q. q_id q = questionId a) qs of
                 None \<Rightarrow> False
               | Some q \<Rightarrow> computedCorrect q a) as)"
  by (simp add: score_def foldl_gradeAnswer)



lemma demo_completed:
  "run (initial (Some ''key'')) (demo_exam @ [SubmitAll ''id-1'' ''2025-01-01T00:00:00.000Z''])
     = Inr demo_results"
  by (simp add: run_append demo_run step_def demo_results_def)
     (simp add: demo_world_def demo_screen_def)

lemma demo_results_screen: "appState demo_results = RESULTS"
  by (simp add: demo_results_def handleSubmitAll_def ResultsView_effect_def
      handleExamComplete_def demo_world_def)

section \<open>The two sample sessions, completed\<close>












section \<open>Scoring a completed session\<close>




text \<open>
  C10. Whenever the results screen is shown, the session has at least one question,
  the score is at most the number of questions and the percentage is a whole number
  from 0 to 100. The scorer itself has no guard: for an empty question set the
  quotient is \<open>0 / 0\<close> and the percentage is not a number.
\<close>
theorem score_and_percentage_range:
  assumes "run (initial key) evs = Inr w" and "appState w = RESULTS"
  shows "questions w \<noteq> [] \<and>
         score (questions w) (userAnswers w) \<le> length (questions w) \<and>
         (\<exists>p. percentage (questions w) (userAnswers w) = Num (of_int p) \<and> 0 \<le> p \<and> p \<le> 100) \<and>
         js_div (score [] as) (length ([] :: Question list)) = NaN \<and>
         percentage [] as = NaN"
proof -
  from reachable_ok [OF assms(1)] assms(2) obtain
    ne: "questions w \<noteq> []" and ok: "answers_ok (questions w) (userAnswers w)"
    by (rule results_screen)
  have "js_div (score [] as) (length ([] :: Question list)) = NaN"
    by (simp add: score_filter js_div_def)
  then show ?thesis
    using ne score_le [OF ok] percentage_bounds [OF ne score_le [OF ok]] percentage_Nil
    by simp
qed

theorem score_and_percentage_range_witness:
  "run (initial (Some ''key'')) (demo_exam @ [SubmitAll ''id-1'' ''2025-01-01T00:00:00.000Z''])
     = Inr demo_results \<and>
   appState demo_results = RESULTS \<and>
   score (questions demo_results) (userAnswers demo_results) \<le> 3 \<and>
   percentage [] (userAnswers demo_results) = NaN"
proof -
  have "length (questions demo_results) = 3"
    by (simp add: demo_results_def handleSubmitAll_def ResultsView_effect_def
      handleExamComplete_def demo_world_def demo_questions_def)
  then show ?thesis
    using score_and_percentage_range [OF demo_completed demo_results_screen, of "userAnswers demo_results"]
      demo_completed demo_results_screen
    by simp
qed

section \<open>Save and resume\<close>

lemma save_resume:
  assumes ok: "world_ok w" and e: "exam w = Some e"
  shows "\<exists>c e'. config w = Some c \<and>
           mount (questions w) (timeLimit c) (Map_values (answers e)) (elapsed e) (currentIdx e)
             = Inr e' \<and>
           answers e' = answers e \<and> elapsed e' = elapsed e \<and> currentIdx e' = currentIdx e \<and>
           render (handleResumeExam (handleSave now e w)) =
             Inr ((handleSave now e w)
                    \<lparr>config := Some c, questions := questions w,
                     initialAnswers := Map_values (answers e), initialTimeSpent := elapsed e,
                     initialIdx := currentIdx e, appState := EXAM, exam := Some e'\<rparr>)"
proof -
  from exam_mounted [OF ok e] obtain c where c: "config w = Some c"
    and eo: "exam_ok (questions w) e" by auto
  from eo have idx: "currentIdx e < length (questions w)"
    and led: "ledger_ok (questions w) (answers e)" by (simp_all add: exam_ok_def)
  from mount_ok [OF answers_ok_values [OF led] idx, of "timeLimit c" "elapsed e"]
  obtain e' where m: "mount (questions w) (timeLimit c) (Map_values (answers e)) (elapsed e)
        (currentIdx e) = Inr e'"
    and a: "answers e' = map (\<lambda>a. (questionId a, a)) (Map_values (answers e))"
    and t: "elapsed e' = elapsed e" and i: "currentIdx e' = currentIdx e"
    by blast
  from a ledger_entries(1) [OF led] have a': "answers e' = answers e" by simp
  show ?thesis using c m a' t i
    by (simp add: handleSave_def handleSaveExam_def handleResumeExam_def render_def)
qed

lemma demo_saved_step:
  "step demo_world (Save ''2025-01-01T00:05:00.000Z'') = Inr demo_saved"
  by (simp add: step_def demo_saved_def) (simp add: demo_world_def demo_screen_def)

lemma demo_resumed_render:
  "render (handleResumeExam demo_saved) = Inr demo_resumed"
  by code_simp

lemma demo_resumed_step: "step demo_saved Resume = Inr demo_resumed"
proof -
  have "appState demo_saved = SETUP"
    by (simp add: demo_saved_def handleSave_def handleSaveExam_def demo_world_def)
  then show ?thesis by (simp add: step_def demo_resumed_render)
qed

lemma demo_resumed_run:
  "run (initial (Some ''key'')) (demo_exam @ [Save ''2025-01-01T00:05:00.000Z'', Resume])
     = Inr demo_resumed"
  by (simp add: run_append demo_run demo_saved_step demo_resumed_step)

text \<open>
  C2. In every state that the application can reach with the exam screen mounted,
  saving (\<open>handleSave\<close>, which calls \<open>handleSaveExam\<close>) and then resuming
  (\<open>handleResumeExam\<close>, after which the exam screen is mounted from the initial
  props) gives an exam screen with the same question set, the same ledger, the same
  elapsed time and the same current index. While no auto-submit is due, these are
  the two events \<open>Save\<close> and \<open>Resume\<close> of the state machine.
\<close>
theorem save_then_resume_restores:
  assumes "run (initial key) evs = Inr w" and "exam w = Some e"
  shows "\<exists>w' e'.
           render (handleResumeExam (handleSave now e w)) = Inr w' \<and>
           appState w' = EXAM \<and> exam w' = Some e' \<and>
           questions w' = questions w \<and> answers e' = answers e \<and>
           elapsed e' = elapsed e \<and> currentIdx e' = currentIdx e \<and>
           (pendingTimeouts e = 0 \<longrightarrow> run w [Save now, Resume] = Inr w')"
proof -
  have ok: "world_ok w" using assms(1) by (rule reachable_ok)
  from save_resume [OF ok assms(2), of now] obtain c e'
    where c: "config w = Some c"
      and same: "answers e' = answers e" "elapsed e' = elapsed e" "currentIdx e' = currentIdx e"
      and r: "render (handleResumeExam (handleSave now e w)) =
             Inr ((handleSave now e w)
                    \<lparr>config := Some c, questions := questions w,
                     initialAnswers := Map_values (answers e), initialTimeSpent := elapsed e,
                     initialIdx := currentIdx e, appState := EXAM, exam := Some e'\<rparr>)"
    by blast
  from exam_mounted [OF ok assms(2)] have st: "appState w = EXAM" by simp
  have s1: "pendingTimeouts e = 0 \<Longrightarrow> step w (Save now) = Inr (handleSave now e w)"
    using st c assms(2) by (simp add: step_def)
  have "appState (handleSave now e w) = SETUP"
    using c by (simp add: handleSave_def handleSaveExam_def)
  then have s2: "step (handleSave now e w) Resume = render (handleResumeExam (handleSave now e w))"
    by (simp add: step_def)
  show ?thesis using r same s1 s2 by simp
qed

theorem save_then_resume_restores_witness:
  "run (initial (Some ''key'')) demo_exam = Inr demo_world \<and>
   exam demo_world = Some demo_screen \<and>
   run demo_world [Save ''2025-01-01T00:05:00.000Z'', Resume] = Inr demo_resumed \<and>
   questions demo_resumed = questions demo_world \<and>
   map_option answers (exam demo_resumed) = Some (answers demo_screen) \<and>
   map_option elapsed (exam demo_resumed) = Some (elapsed demo_screen) \<and>
   map_option currentIdx (exam demo_resumed) = Some (currentIdx demo_screen)"
proof -
  have p: "pendingTimeouts demo_screen = 0" by (simp add: demo_screen_def)
  have r: "render (handleResumeExam (handleSave ''2025-01-01T00:05:00.000Z'' demo_screen demo_world))
      = Inr demo_resumed"
    using demo_resumed_render by (simp add: demo_saved_def)
  from save_then_resume_restores [OF demo_run demo_mounted, of "''2025-01-01T00:05:00.000Z''"]
  show ?thesis using p r demo_run demo_mounted by auto
qed

section \<open>The snapshot slot\<close>

lemma render_slot: "render w = Inr w' \<Longrightarrow> codequest_saved_exam w' = codequest_saved_exam w"
  by (auto simp: render_def split: if_splits option.splits sum.splits)

lemma handleResumeExam_slot: "codequest_saved_exam (handleResumeExam w) = codequest_saved_exam w"
  by (simp add: handleResumeExam_def split: option.splits stored.splits)

lemma handleStartExam_resume_slot:
  "codequest_saved_exam (handleStartExam_resume r w) = codequest_saved_exam w"
  by (simp add: handleStartExam_resume_def split: sum.splits)

lemma handleSubmitAll_slot: "codequest_saved_exam (handleSubmitAll uuid now e w) = None"
  by (simp add: handleSubmitAll_def ResultsView_effect_def handleExamComplete_def
      split: option.splits)

lemma handleSave_slot:
  "config w \<noteq> None \<Longrightarrow> codequest_saved_exam (handleSave now e w) \<noteq> None"
  by (auto simp: handleSave_def handleSaveExam_def)

lemma step_slot:
  assumes ok: "world_ok w" and s: "step w ev = Inr w'"
  shows "(codequest_saved_exam w' \<noteq> None) =
           saved_not_completed (codequest_saved_exam w \<noteq> None) ev"
proof (cases "ev = Reload")
  case True
  with s show ?thesis by (auto simp: step_def reload_def)
next
  case nr: False
  show ?thesis
  proof (cases "appState w")
    case SETUP
    note ss = s [unfolded step_def, simplified nr SETUP if_False AppState.case]
    show ?thesis
    proof (cases ev)
      case Resume
      from ss [unfolded Resume event.case] show ?thesis
        using render_slot handleResumeExam_slot Resume by fastforce
    qed (use ss in \<open>auto simp: handleStartExam_call_def\<close>)
  next
    case LOADING
    note ss = s [unfolded step_def, simplified nr LOADING if_False AppState.case]
    show ?thesis
    proof (cases ev)
      case (GenerationSettles reply)
      from ss [unfolded GenerationSettles event.case] show ?thesis
        using render_slot handleStartExam_resume_slot GenerationSettles by fastforce
    qed (use ss in \<open>auto\<close>)
  next
    case EXAM
    from ok EXAM obtain e c where e: "exam w = Some e" and c: "config w = Some c"
      by (auto simp: world_ok_def screen_ok_def split: option.splits)
    note ss = s [unfolded step_def, simplified nr EXAM e c if_False AppState.case prod.case option.case]
    have other: "codequest_saved_exam w' = codequest_saved_exam w"
      if "(case examEvent (questions w) (timeLimit c) (VITE_API_KEY w) ev e of
           Inl err \<Rightarrow> Inl err | Inr e' \<Rightarrow> Inr (w\<lparr>exam := Some e'\<rparr>)) = Inr w'"
      using that by (auto split: sum.splits)
    show ?thesis
    proof (cases ev)
      case (TimeoutFires uuid now)
      from ss [unfolded TimeoutFires event.case] show ?thesis
        using handleSubmitAll_slot TimeoutFires by (auto split: if_splits)
    next
      case (SubmitAll uuid now)
      from ss [unfolded SubmitAll event.case] show ?thesis
        using handleSubmitAll_slot SubmitAll by (auto split: if_splits)
    next
      case (Save now)
      from ss [unfolded Save event.case] show ?thesis
        using handleSave_slot [of w now e] c Save by (auto split: if_splits)
    qed (use ss other in \<open>auto\<close>)
  next
    case RESULTS
    note ss = s [unfolded step_def, simplified nr RESULTS if_False AppState.case]
    from ss show ?thesis
      by (cases ev; cases "config w") (auto simp: handleRestart_def)
  next
    case PROGRESS
    note ss = s [unfolded step_def, simplified nr PROGRESS if_False AppState.case]
    from ss show ?thesis
      by (cases ev) auto
  qed
qed

lemma run_slot:
  "world_ok w \<Longrightarrow> run w evs = Inr w' \<Longrightarrow>
   (codequest_saved_exam w' \<noteq> None) =
     foldl saved_not_completed (codequest_saved_exam w \<noteq> None) evs"
proof (induction evs arbitrary: w)
  case Nil
  then show ?case by simp
next
  case (Cons ev evs)
  from Cons.prems(2) obtain w1 where s: "step w ev = Inr w1" and r: "run w1 evs = Inr w'"
    by (auto split: sum.splits)
  from step_slot [OF Cons.prems(1) s] Cons.IH [OF step_ok [OF Cons.prems(1) s] r]
  show ?case by simp
qed

lemma demo_resumed_slot: "codequest_saved_exam demo_resumed \<noteq> None"
  by (simp add: demo_resumed_def demo_saved_def handleSave_def handleSaveExam_def demo_world_def)

lemma demo_resumed_events:
  "foldl saved_per_spec False (demo_exam @ [Save ''2025-01-01T00:05:00.000Z'', Resume]) = False"
  "foldl saved_not_completed False (demo_exam @ [Save ''2025-01-01T00:05:00.000Z'', Resume]) = True"
  by (simp_all add: demo_exam_def)

text \<open>
  C3, as stated, fails: the sample session is saved and then resumed, after which the
  snapshot is still in the slot although the user has resumed since saving.
  \<open>handleResumeExam\<close> reads the slot and does not clear it.
\<close>
theorem snapshot_survives_resume:
  "run (initial (Some ''key'')) (demo_exam @ [Save ''2025-01-01T00:05:00.000Z'', Resume])
     = Inr demo_resumed \<and>
   codequest_saved_exam demo_resumed \<noteq> None \<and>
   foldl saved_per_spec False (demo_exam @ [Save ''2025-01-01T00:05:00.000Z'', Resume]) = False"
  using demo_resumed_run demo_resumed_slot demo_resumed_events(1) by simp

text \<open>
  C3, amended. In every state that the application can reach, a snapshot is in the
  slot if and only if the user has saved and has not completed an exam since: every
  save puts a snapshot there, every completion (by the Submit button or by the
  auto-submit) removes it, and no other event, resume and restart among them, changes
  whether there is one. On the results screen, and so after every restart that follows
  it, the slot is empty.
\<close>
theorem snapshot_iff_saved_not_completed:
  assumes "run (initial key) evs = Inr w"
  shows "(codequest_saved_exam w \<noteq> None) = foldl saved_not_completed False evs \<and>
         (appState w = RESULTS \<longrightarrow> codequest_saved_exam w = None)"
proof -
  have "codequest_saved_exam (initial key) = None" by (simp add: initial_def)
  with run_slot [OF world_ok_initial assms]
  have "(codequest_saved_exam w \<noteq> None) = foldl saved_not_completed False evs" by simp
  moreover have "appState w = RESULTS \<longrightarrow> codequest_saved_exam w = None"
    using reachable_ok [OF assms] by (auto simp: world_ok_def screen_ok_def)
  ultimately show ?thesis by simp
qed

theorem snapshot_iff_saved_not_completed_witness:
  "run (initial (Some ''key'')) (demo_exam @ [Save ''2025-01-01T00:05:00.000Z'', Resume])
     = Inr demo_resumed \<and>
   codequest_saved_exam demo_resumed \<noteq> None \<and>
   foldl saved_not_completed False (demo_exam @ [Save ''2025-01-01T00:05:00.000Z'', Resume]) \<and>
   run (initial (Some ''key'')) (demo_exam @ [SubmitAll ''id-1'' ''2025-01-01T00:00:00.000Z''])
     = Inr demo_results \<and>
   appState demo_results = RESULTS \<and>
   codequest_saved_exam demo_results = None"
  using snapshot_iff_saved_not_completed [OF demo_resumed_run]
    snapshot_iff_saved_not_completed [OF demo_completed]
    demo_resumed_run demo_completed demo_results_screen demo_resumed_events(2)
  by simp

section \<open>A failed start\<close>

lemma failed_start:
  assumes "run (initial key) evs = Inr w" and "appState w = LOADING"
    and "generateExamQuestions (VITE_API_KEY w) reply = Inl err"
  shows "step w (GenerationSettles reply) =
           Inr (w\<lparr>alerts := alerts w @ [Generation_failed err], appState := SETUP\<rparr>) \<and>
         questions w = [] \<and> userAnswers w = [] \<and> initialAnswers w = [] \<and> exam w = None \<and>
         config w \<noteq> None"
proof -
  from reachable_ok [OF assms(1)] assms(2)
  have scr: "exam w = None" "config w \<noteq> None" "questions w = []" "userAnswers w = []"
    "initialAnswers w = []"
    by (simp_all add: world_ok_def screen_ok_def)
  then have "w\<lparr>alerts := alerts w @ [Generation_failed err], appState := SETUP, exam := None\<rparr>
      = w\<lparr>alerts := alerts w @ [Generation_failed err], appState := SETUP\<rparr>"
    by simp
  then show ?thesis using assms(2,3) scr
    by (simp add: step_def handleStartExam_resume_def render_def)
qed

text \<open>
  C8. The claim is that a failed generation leaves nothing of the failed start behind.
  In the code the start stores the configuration before it awaits the generation and
  the \<open>catch\<close> branch only shows the alert and returns to the setup screen: after
  a start whose generation is rejected the state is the initial one, except that the
  configuration of the failed start is still there. (\<open>handleSaveExam\<close> and
  \<open>handleRestart\<close>, which also return to the setup screen, set it back to \<open>null\<close>.)
\<close>
theorem failed_start_keeps_configuration:
  "run (initial (Some ''key'')) [Start demo_config, GenerationSettles Rejects] =
     Inr ((initial (Some ''key''))
            \<lparr>config := Some demo_config, alerts := [Generation_failed AI_call_failed]\<rparr>)"
  by (simp add: step_def initial_def handleStartExam_call_def handleStartExam_resume_def
      render_def generateExamQuestions_def getAiClient_def)

section \<open>The auto-submit effect\<close>

lemma timer_ok_mount: "mount qs limit as t i = Inr e \<Longrightarrow> timer_ok limit e"
  by (auto simp: mount_def timer_ok_def split: option.splits)

lemma timer_ok_tick: "timer_ok limit e \<Longrightarrow> timer_ok limit (tick limit e)"
  by (auto simp: timer_ok_def tick_def tickElapsed_def autoSubmitDue_def Let_def)

lemma timer_examEvent:
  assumes "timer_ok limit e" and "examEvent qs limit key ev e = Inr e'"
  shows "timer_ok limit e'"
proof -
  from assms(2) obtain cq where cq: "currentQuestion qs (currentIdx e) = Some cq"
    by (cases "currentQuestion qs (currentIdx e)") (simp_all add: examEvent_def)
  note ee = assms(2) [unfolded examEvent_def cq option.case]
  have same: "timer_ok limit e'" if "elapsed e' = elapsed e" "pendingTimeouts e' = pendingTimeouts e"
    using that assms(1) by (simp add: timer_ok_def)
  show ?thesis
  proof (cases ev)
    case Tick
    from ee [unfolded Tick event.case] show ?thesis
      using timer_ok_tick [OF assms(1)] by auto
  qed (use ee same in \<open>auto split: if_splits option.splits sum.splits\<close>)
qed

lemma render_timer: "render w = Inr w' \<Longrightarrow> timer_inv w'"
  by (auto simp: render_def timer_inv_def dest: timer_ok_mount
      split: if_splits option.splits sum.splits)

lemma step_timer:
  assumes ok: "world_ok w" and t: "timer_inv w" and s: "step w ev = Inr w'"
  shows "timer_inv w'"
proof (cases "appState w' = EXAM")
  case False
  with step_ok [OF ok s] have "exam w' = None"
    by (cases "appState w'") (auto simp: world_ok_def screen_ok_def)
  then show ?thesis by (simp add: timer_inv_def)
next
  case ex: True
  have nr: "ev \<noteq> Reload" using s ex by (auto simp: step_def reload_def initial_def)
  show ?thesis
  proof (cases "appState w")
    case SETUP
    note ss = s [unfolded step_def, simplified nr SETUP if_False AppState.case]
    show ?thesis
    proof (cases ev)
      case Resume
      from ss [unfolded Resume event.case] show ?thesis by (rule render_timer)
    qed (use ss ex in \<open>auto simp: handleStartExam_call_def\<close>)
  next
    case LOADING
    note ss = s [unfolded step_def, simplified nr LOADING if_False AppState.case]
    show ?thesis
    proof (cases ev)
      case (GenerationSettles reply)
      from ss [unfolded GenerationSettles event.case] show ?thesis by (rule render_timer)
    qed (use ss in \<open>auto\<close>)
  next
    case EXAM
    from ok EXAM obtain e c where e: "exam w = Some e" and c: "config w = Some c"
      by (auto simp: world_ok_def screen_ok_def split: option.splits)
    from t e c have te: "timer_ok (timeLimit c) e" by (simp add: timer_inv_def)
    note ss = s [unfolded step_def, simplified nr EXAM e c if_False AppState.case prod.case option.case]
    have other: "timer_inv w'"
      if "(case examEvent (questions w) (timeLimit c) (VITE_API_KEY w) ev e of
           Inl err \<Rightarrow> Inl err | Inr e' \<Rightarrow> Inr (w\<lparr>exam := Some e'\<rparr>)) = Inr w'"
    proof -
      from that obtain e' where ee: "examEvent (questions w) (timeLimit c) (VITE_API_KEY w) ev e = Inr e'"
        and w': "w' = w\<lparr>exam := Some e'\<rparr>"
        by (auto split: sum.splits)
      from timer_examEvent [OF te ee] show ?thesis using w' c
        by (simp add: timer_inv_def)
    qed
    have left: "timer_inv w'" if "exam w' = None"
      using that by (simp add: timer_inv_def)
    show ?thesis
    proof (cases ev)
      case (TimeoutFires uuid now)
      from ss [unfolded TimeoutFires event.case] show ?thesis
        by (intro left) (auto simp: handleSubmitAll_def ResultsView_effect_def
            split: if_splits option.splits)
    next
      case (SubmitAll uuid now)
      from ss [unfolded SubmitAll event.case] show ?thesis
        by (intro left) (auto simp: handleSubmitAll_def ResultsView_effect_def
            split: if_splits option.splits)
    next
      case (Save now)
      from ss [unfolded Save event.case] show ?thesis
        by (intro left) (auto simp: handleSave_def split: if_splits)
    qed (use ss other in \<open>auto\<close>)
  next
    case RESULTS
    note ss = s [unfolded step_def, simplified nr RESULTS if_False AppState.case]
    from ss ex show ?thesis
      by (cases ev; cases "config w") (auto simp: handleRestart_def)
  next
    case PROGRESS
    note ss = s [unfolded step_def, simplified nr PROGRESS if_False AppState.case]
    from ss ex show ?thesis
      by (cases ev) auto
  qed
qed

lemma run_timer: "world_ok w \<Longrightarrow> timer_inv w \<Longrightarrow> run w evs = Inr w' \<Longrightarrow> timer_inv w'"
proof (induction evs arbitrary: w)
  case Nil
  then show ?case by simp
next
  case (Cons ev evs)
  from Cons.prems(3) obtain w1 where s: "step w ev = Inr w1" and r: "run w1 evs = Inr w'"
    by (auto split: sum.splits)
  from Cons.IH [OF step_ok [OF Cons.prems(1) s] step_timer [OF Cons.prems(1,2) s] r]
  show ?case .
qed

lemma reachable_timer: "run (initial key) evs = Inr w \<Longrightarrow> timer_inv w"
  using run_timer [OF world_ok_initial] by (simp add: timer_inv_def initial_def)

lemma ticks_pending:
  "timer_ok limit e \<Longrightarrow>
   pendingTimeouts (ticks limit n e) =
     (if 0 < limit \<and> limit * 60 \<le> elapsed e + n then 1 else 0)"
proof (induction n arbitrary: e)
  case 0
  then show ?case by (simp add: timer_ok_def autoSubmitDue_def)
next
  case (Suc n)
  have el: "elapsed (tick limit e) =
      (if 0 < limit \<and> limit * 60 \<le> elapsed e then elapsed e else elapsed e + 1)"
    by (simp add: tick_def tickElapsed_def Let_def)
  from Suc.IH [OF timer_ok_tick [OF Suc.prems]] show ?case
    by (simp add: el)
qed

lemma ticks_answers: "answers (ticks limit n e) = answers e"
  by (induction n arbitrary: e) (simp_all add: tick_def Let_def)

lemma ticks_currentIdx: "currentIdx (ticks limit n e) = currentIdx e"
  by (induction n arbitrary: e) (simp_all add: tick_def Let_def)

lemma ticks_elapsed:
  "elapsed (ticks limit n e) =
     (if 0 < limit then (if limit * 60 \<le> elapsed e then elapsed e else min (elapsed e + n) (limit * 60))
      else elapsed e + n)"
proof (induction n arbitrary: e)
  case 0
  then show ?case by simp
next
  case (Suc n)
  have el: "elapsed (tick limit e) =
      (if 0 < limit \<and> limit * 60 \<le> elapsed e then elapsed e else elapsed e + 1)"
    by (simp add: tick_def tickElapsed_def Let_def)
  show ?case using el by (auto simp: Suc.IH min_def)
qed

lemma step_Tick:
  assumes "appState w = EXAM" and "exam w = Some e" and "config w = Some c"
    and "currentIdx e < length (questions w)"
  shows "step w Tick = Inr (w\<lparr>exam := Some (tick (timeLimit c) e)\<rparr>)"
  using assms by (simp add: step_def examEvent_def currentQuestion_def)

lemma run_Ticks:
  assumes "appState w = EXAM" and "exam w = Some e" and "config w = Some c"
    and "currentIdx e < length (questions w)"
  shows "run w (replicate n Tick) = Inr (w\<lparr>exam := Some (ticks (timeLimit c) n e)\<rparr>)"
  using assms
proof (induction n arbitrary: w e)
  case 0
  then show ?case by simp
next
  case (Suc n)
  have idx: "currentIdx (tick (timeLimit c) e) = currentIdx e"
    by (simp add: tick_def Let_def)
  from Suc.IH [of "w\<lparr>exam := Some (tick (timeLimit c) e)\<rparr>" "tick (timeLimit c) e"]
    Suc.prems idx
  show ?case by (simp add: step_Tick)
qed

lemma handleSubmitAll_exam:
  "handleSubmitAll uuid now e (w\<lparr>exam := x\<rparr>) = handleSubmitAll uuid now e w"
  by (simp add: handleSubmitAll_def handleExamComplete_def ResultsView_effect_def
      split: option.splits)

lemma handleSubmitAll_fields:
  "appState (handleSubmitAll uuid now e w) = RESULTS \<and>
   exam (handleSubmitAll uuid now e w) = None \<and>
   userAnswers (handleSubmitAll uuid now e w) = Map_values (answers e) \<and>
   timeSpent (handleSubmitAll uuid now e w) = elapsed e"
  by (simp add: handleSubmitAll_def handleExamComplete_def ResultsView_effect_def
      split: option.splits)

lemma step_TimeoutFires:
  assumes "appState w = EXAM" and "exam w = Some e" and "config w = Some c"
  shows "step w (TimeoutFires uuid now) =
           (if 0 < pendingTimeouts e then Inr (handleSubmitAll uuid now e w) else Inl Not_rendered)"
  using assms by (simp add: step_def)

lemma step_TimeoutFires_results:
  "appState w = RESULTS \<Longrightarrow> step w (TimeoutFires uuid now) = Inl Not_rendered"
  by (simp add: step_def split: option.splits)

text \<open>
  C4. \<open>TimeoutFires\<close> is the run of the callback that the auto-submit effect passes
  to \<open>setTimeout\<close>, and \<open>pendingTimeouts\<close> counts the callbacks that are scheduled. From
  every state that the application can reach with the exam screen mounted, and for
  every number \<open>n\<close> of further timer ticks: the ticks leave the screen mounted;
  one callback is scheduled if the configured limit is positive and the elapsed time
  has reached it, and none otherwise (so not a second one on the ticks past the limit,
  and never one with the limit zero); the callback, if scheduled, runs
  \<open>handleSubmitAll\<close>: the application goes to the results screen and records the
  answers of the ledger and the elapsed time, which has stopped at the limit; and no
  callback is left to run after that. If none is scheduled, none runs.
\<close>

theorem auto_submit_fires_once:
  assumes "run (initial key) evs = Inr w" and "exam w = Some e" and "config w = Some c"
  shows "pendingTimeouts (ticks (timeLimit c) n e) =
           (if 0 < timeLimit c \<and> timeLimit c * 60 \<le> elapsed e + n then 1 else 0) \<and>
         run w (replicate n Tick) = Inr (w\<lparr>exam := Some (ticks (timeLimit c) n e)\<rparr>) \<and>
         run w (replicate n Tick @ [TimeoutFires uuid now]) =
           (if 0 < timeLimit c \<and> timeLimit c * 60 \<le> elapsed e + n
            then Inr (handleSubmitAll uuid now (ticks (timeLimit c) n e) w)
            else Inl Not_rendered) \<and>
         appState (handleSubmitAll uuid now (ticks (timeLimit c) n e) w) = RESULTS \<and>
         userAnswers (handleSubmitAll uuid now (ticks (timeLimit c) n e) w) =
           Map_values (answers e) \<and>
         timeSpent (handleSubmitAll uuid now (ticks (timeLimit c) n e) w) =
           (if 0 < timeLimit c
            then (if timeLimit c * 60 \<le> elapsed e then elapsed e
                  else min (elapsed e + n) (timeLimit c * 60))
            else elapsed e + n) \<and>
         step (handleSubmitAll uuid now (ticks (timeLimit c) n e) w) (TimeoutFires uuid' now') =
           Inl Not_rendered"
proof -
  let ?e = "ticks (timeLimit c) n e"
  let ?w = "w\<lparr>exam := Some ?e\<rparr>"
  from reachable_timer [OF assms(1)] assms(2,3) have "timer_ok (timeLimit c) e"
    by (simp add: timer_inv_def)
  then have p: "pendingTimeouts ?e =
      (if 0 < timeLimit c \<and> timeLimit c * 60 \<le> elapsed e + n then 1 else 0)"
    by (rule ticks_pending)
  from reachable_ok [OF assms(1)] assms(2) have st: "appState w = EXAM"
    by (cases "appState w") (auto simp: world_ok_def screen_ok_def)
  with reachable_ok [OF assms(1)] assms(2) have idx: "currentIdx e < length (questions w)"
    by (simp add: world_ok_def screen_ok_def exam_ok_def)
  have r: "run w (replicate n Tick) = Inr ?w"
    using st assms(2,3) idx by (rule run_Ticks)
  have "step ?w (TimeoutFires uuid now) =
      (if 0 < pendingTimeouts ?e then Inr (handleSubmitAll uuid now ?e ?w) else Inl Not_rendered)"
    by (rule step_TimeoutFires) (simp_all add: st assms(3))
  then have f: "run w (replicate n Tick @ [TimeoutFires uuid now]) =
      (if 0 < timeLimit c \<and> timeLimit c * 60 \<le> elapsed e + n
       then Inr (handleSubmitAll uuid now ?e w) else Inl Not_rendered)"
    by (simp add: run_append r p handleSubmitAll_exam)
  show ?thesis
    using p r f handleSubmitAll_fields [of uuid now ?e w]
      step_TimeoutFires_results [of "handleSubmitAll uuid now ?e w" uuid' now']
    by (simp add: ticks_answers ticks_elapsed)
qed

theorem auto_submit_fires_once_witness:
  "run (initial (Some ''key'')) demo_exam = Inr demo_world \<and>
   exam demo_world = Some demo_screen \<and> config demo_world = Some demo_config \<and>
   pendingTimeouts (ticks (timeLimit demo_config) 299 demo_screen) = 1 \<and>
   run demo_world (replicate 299 Tick @ [TimeoutFires ''id-1'' ''2025-01-01T00:05:00.000Z'']) =
     Inr (handleSubmitAll ''id-1'' ''2025-01-01T00:05:00.000Z''
            (ticks (timeLimit demo_config) 299 demo_screen) demo_world) \<and>
   timeSpent (handleSubmitAll ''id-1'' ''2025-01-01T00:05:00.000Z''
            (ticks (timeLimit demo_config) 299 demo_screen) demo_world) = 300 \<and>
   step (handleSubmitAll ''id-1'' ''2025-01-01T00:05:00.000Z''
            (ticks (timeLimit demo_config) 299 demo_screen) demo_world)
        (TimeoutFires ''id-2'' ''2025-01-01T00:05:01.000Z'') = Inl Not_rendered \<and>
   pendingTimeouts (ticks (timeLimit demo_config) 1000 demo_screen) = 1 \<and>
   pendingTimeouts (ticks (timeLimit demo_config) 298 demo_screen) = 0 \<and>
   run demo_world (replicate 298 Tick @ [TimeoutFires ''id-1'' ''2025-01-01T00:05:00.000Z'']) =
     Inl Not_rendered"
proof -
  have c: "config demo_world = Some demo_config" by (simp add: demo_world_def)
  have v: "timeLimit demo_config = 5" "elapsed demo_screen = 1"
    by (simp_all add: demo_config_def demo_screen_def)
  show ?thesis
    using auto_submit_fires_once [OF demo_run demo_mounted c, of 298
        "''id-1''" "''2025-01-01T00:05:00.000Z''" "''id-2''" "''2025-01-01T00:05:01.000Z''"]
      auto_submit_fires_once [OF demo_run demo_mounted c, of 299
        "''id-1''" "''2025-01-01T00:05:00.000Z''" "''id-2''" "''2025-01-01T00:05:01.000Z''"]
      auto_submit_fires_once [OF demo_run demo_mounted c, of 1000
        "''id-1''" "''2025-01-01T00:05:00.000Z''" "''id-2''" "''2025-01-01T00:05:01.000Z''"]
      demo_run demo_mounted c
    by (simp add: v)
qed

section \<open>Which questions count as answered\<close>

lemma demo_reset_run: "run (initial (Some ''key'')) demo_reset = Inr demo_reset_world"
  by code_simp

text \<open>
  C5, as stated, fails: on a code question without starting code the user resets the
  code. The answer that this creates holds the placeholder text and no selected
  option, and \<open>isAnswered\<close> is true for it: the placeholder is longer than five
  characters.
\<close>

theorem reset_placeholder_counts_as_answered:
  "run (initial (Some ''key'')) demo_reset = Inr demo_reset_world \<and>
   exam demo_reset_world = Some demo_reset_screen \<and>
   answers demo_reset_screen =
     [(''q1'', (newAnswer ''q1'')\<lparr>code := Some (placeholder (demo_coding ''q1''))\<rparr>)] \<and>
   isAnswered (answers demo_reset_screen) ''q1''"
  using demo_reset_run
  by (simp add: demo_reset_world_def demo_reset_screen_def isAnswered_def placeholder_def
      demo_coding_def newAnswer_def)

text \<open>
  C5, amended. \<open>isAnswered\<close> is true exactly when the ledger has an answer for the
  question with a selected option or with code longer than five characters. In
  particular it is false while the ledger has no answer for the question, which is the
  state in which the editor only displays the starting code or the placeholder; the
  first edit of the code then makes it true exactly when the text is longer than five
  characters, and selecting an option makes it true.
\<close>

theorem isAnswered_iff:
  "(isAnswered m qId \<longleftrightarrow>
      (\<exists>a. Map_get m qId = Some a \<and>
           (selectedOptionId a \<noteq> None \<or> (\<exists>c. code a = Some c \<and> 5 < length c)))) \<and>
   (Map_get m (q_id cq) = None \<longrightarrow>
      \<not> isAnswered m (q_id cq) \<and> getEditorValue cq m = initialCode cq \<and>
      isAnswered (handleCodeChange cq c m) (q_id cq) = (5 < length c)) \<and>
   isAnswered (handleOptionSelect cq optId m) (q_id cq)"
proof -
  have 1: "isAnswered m qId \<longleftrightarrow>
      (\<exists>a. Map_get m qId = Some a \<and>
           (selectedOptionId a \<noteq> None \<or> (\<exists>c. code a = Some c \<and> 5 < length c)))"
    by (auto simp: isAnswered_def split: option.splits)
  have 2: "Map_get m (q_id cq) = None \<longrightarrow>
      \<not> isAnswered m (q_id cq) \<and> getEditorValue cq m = initialCode cq \<and>
      isAnswered (handleCodeChange cq c m) (q_id cq) = (5 < length c)"
    by (simp add: isAnswered_def getEditorValue_def handleCodeChange_def Map_get_set
        existing_def newAnswer_def)
  have 3: "isAnswered (handleOptionSelect cq optId m) (q_id cq)"
    by (simp add: isAnswered_def handleOptionSelect_def Map_get_set)
  from 1 2 3 show ?thesis by blast
qed

theorem isAnswered_iff_witness:
  "Map_get ([] :: ledger) (q_id (demo_coding ''q3'')) = None \<and>
   \<not> isAnswered [] (q_id (demo_coding ''q3'')) \<and>
   getEditorValue (demo_coding ''q3'') [] = ''# Start your code here'' \<and>
   isAnswered (handleCodeChange (demo_coding ''q3'') ''return 1'' []) (q_id (demo_coding ''q3'')) \<and>
   \<not> isAnswered (handleCodeChange (demo_coding ''q3'') ''pass'' []) (q_id (demo_coding ''q3'')) \<and>
   isAnswered (handleOptionSelect (demo_choice ''q1'') ''b'' []) (q_id (demo_choice ''q1''))"
proof -
  have i: "initialCode (demo_coding ''q3'') = ''# Start your code here''"
    by (simp add: initialCode_def placeholder_def demo_coding_def)
  show ?thesis
    using isAnswered_iff [of "[]" "''q3''" "demo_coding ''q3''" "''return 1''"]
      isAnswered_iff [of "[]" "''q3''" "demo_coding ''q3''" "''pass''"]
      isAnswered_iff [of "[]" "''q1''" "demo_choice ''q1''" "''x''" "''b''"]
    by (simp add: i)
qed

section \<open>A judging call that fails\<close>

lemma reachable_key:
  assumes "run (initial key) evs = Inr w" and "exam w = Some e"
  shows "\<exists>ai. getAiClient (VITE_API_KEY w) = Inr ai"
proof -
  have ok: "world_ok w" using assms(1) by (rule reachable_ok)
  from exam_mounted [OF ok assms(2)] have "questions w \<noteq> []" by (auto simp: exam_ok_def)
  with ok have "getAiClient (VITE_API_KEY w) \<noteq> Inl API_KEY_missing"
    by (simp add: world_ok_def key_ok_def)
  then show ?thesis
    by (cases "getAiClient (VITE_API_KEY w)") (auto dest: getAiClient_cases)
qed

lemma grade_failure:
  "getAiClient k = Inr ai \<Longrightarrow> reply \<in> {Rejects, NoText, BadJSON} \<Longrightarrow>
   gradeCodeSubmission k reply = Inr grading_fallback"
  by (auto simp: gradeCodeSubmission_def)

lemma judge_settles_step:
  assumes "run (initial key) evs = Inr w" and "exam w = Some e" and "pendingRun e = Some cl"
    and "gradeCodeSubmission (VITE_API_KEY w) reply = Inr r"
  shows "step w (JudgeSettles reply) =
           Inr (w\<lparr>exam := Some (e\<lparr>answers := handleRunCode_resume cl r, isGrading := False,
                                   pendingRun := None\<rparr>)\<rparr>)"
proof -
  have ok: "world_ok w" using assms(1) by (rule reachable_ok)
  from exam_mounted [OF ok assms(2)] obtain c where st: "appState w = EXAM"
    and c: "config w = Some c" and eo: "exam_ok (questions w) e" by auto
  from eo have "currentQuestion (questions w) (currentIdx e) = Some (questions w ! currentIdx e)"
    by (simp add: exam_ok_def currentQuestion_def)
  then have "examEvent (questions w) (timeLimit c) (VITE_API_KEY w) (JudgeSettles reply) e =
      Inr (e\<lparr>answers := handleRunCode_resume cl r, isGrading := False, pendingRun := None\<rparr>)"
    using assms(3,4) by (simp add: examEvent_def)
  then show ?thesis using st c assms(2) by (simp add: step_def)
qed

lemma Map_get_resume:
  "Map_get (handleRunCode_resume cl r) k =
     (if k = q_id (rc_question cl)
      then Some ((existing (rc_question cl) (rc_answers cl))
                   \<lparr>code := Some (rc_userCode cl), isCorrect := Some (passed r),
                    feedback := Some (gr_feedback r), a_output := Some (gr_output r)\<rparr>)
      else Map_get (rc_answers cl) k)"
  by (simp add: handleRunCode_resume_def Map_get_set)

lemma demo_pending:
  "pendingRun demo_screen =
     Some \<lparr>rc_answers = demo_ledger, rc_question = demo_coding ''q3'', rc_userCode = ''return 1''\<rparr>"
  by (simp add: demo_screen_def)

lemma demo_failed_step:
  "reply \<in> {Rejects, NoText, BadJSON} \<Longrightarrow> step demo_world (JudgeSettles reply) = Inr demo_failed_world"
proof -
  assume r: "reply \<in> {Rejects, NoText, BadJSON}"
  have k: "getAiClient (VITE_API_KEY demo_world) = Inr ''key''"
    by (simp add: demo_world_def initial_def getAiClient_def)
  have l: "handleRunCode_resume
      \<lparr>rc_answers = demo_ledger, rc_question = demo_coding ''q3'', rc_userCode = ''return 1''\<rparr>
      grading_fallback = demo_failed_ledger"
    by code_simp
  from judge_settles_step [OF demo_run demo_mounted demo_pending grade_failure [OF k r]]
  show ?thesis by (simp add: l demo_failed_world_def demo_failed_screen_def)
qed




text \<open>
  C7. In every state that the application can reach with a run waiting for the judge,
  a judging call that throws or returns no text makes \<open>gradeCodeSubmission\<close> return
  the fixed fallback result (not passed, the fixed feedback text) and no exception:
  the step succeeds, the exam screen stays up with the same questions, and the
  answer of the run's question has correctness false and the fixed feedback text.
\<close>

theorem judging_failure_gives_fallback:
  assumes "run (initial key) evs = Inr w" and "exam w = Some e" and "pendingRun e = Some cl"
    and "reply = Rejects \<or> reply = NoText"
  shows "gradeCodeSubmission (VITE_API_KEY w) reply = Inr grading_fallback \<and>
         \<not> passed grading_fallback \<and>
         gr_feedback grading_fallback = ''System error during grading.'' \<and>
         (\<exists>w' e' a. step w (JudgeSettles reply) = Inr w' \<and> appState w' = EXAM \<and>
            questions w' = questions w \<and> exam w' = Some e' \<and>
            Map_get (answers e') (q_id (rc_question cl)) = Some a \<and>
            isCorrect a = Some False \<and>
            feedback a = Some ''System error during grading.'')"
proof -
  have ok: "world_ok w" using assms(1) by (rule reachable_ok)
  from exam_mounted [OF ok assms(2)] have st: "appState w = EXAM" by simp
  from reachable_key [OF assms(1,2)] obtain ai
    where "getAiClient (VITE_API_KEY w) = Inr ai" by blast
  moreover from assms(4) have "reply \<in> {Rejects, NoText, BadJSON}" by auto
  ultimately have g: "gradeCodeSubmission (VITE_API_KEY w) reply = Inr grading_fallback"
    by (rule grade_failure)
  from judge_settles_step [OF assms(1-3) g] g st show ?thesis
    by (simp add: Map_get_resume grading_fallback_def)
qed

theorem judging_failure_gives_fallback_witness:
  "run (initial (Some ''key'')) demo_exam = Inr demo_world \<and>
   exam demo_world = Some demo_screen \<and>
   gradeCodeSubmission (VITE_API_KEY demo_world) NoText = Inr grading_fallback \<and>
   step demo_world (JudgeSettles NoText) = Inr demo_failed_world \<and>
   appState demo_failed_world = EXAM"
  using judging_failure_gives_fallback [OF demo_run demo_mounted demo_pending, of NoText]
    demo_failed_step [of NoText] demo_run demo_mounted
  by auto

end
